theory Spec2Isabelle
  imports Complex_Main "HOL-Library.Word"
begin

section \<open>JavaScript values\<close>

subsection \<open>Strings\<close>

text \<open>
  A JavaScript string is a sequence of UTF-16 code units; \<open>length\<close>, indexing and a
  regular expression without the \<open>u\<close> flag all work on code units. The glyphs of the
  BLOCK preset lie outside ASCII, so code units are 16-bit words rather than HOL
  characters. \<open>js\<close> turns an ASCII literal into such a string.
\<close>

type_synonym jschar = "16 word"
type_synonym jsstring = "jschar list"

definition js :: "string \<Rightarrow> jsstring" where
  "js s = map of_char s"

text \<open>\<open>Array.prototype.join\<close> on an array of strings.\<close>

fun join :: "jsstring \<Rightarrow> jsstring list \<Rightarrow> jsstring" where
  "join sep [] = []"
| "join sep [l] = l"
| "join sep (l # ls) = l @ sep @ join sep ls"

text \<open>
  \<open>text.replace(/[...]/g, f)\<close> for a character class: every code unit of the class is
  replaced by what the replacer returns for it, every other one is kept.
\<close>

primrec replace_class :: "jschar list \<Rightarrow> (jschar \<Rightarrow> jsstring) \<Rightarrow> jsstring \<Rightarrow> jsstring" where
  "replace_class cls f [] = []"
| "replace_class cls f (c # cs) = (if c \<in> set cls then f c else [c]) @ replace_class cls f cs"

text \<open>Decimal rendering of an integer, as string interpolation of a number does.\<close>

fun show_nat :: "nat \<Rightarrow> jsstring" where
  "show_nat n = (if n < 10 then [of_nat (48 + n)]
                 else show_nat (n div 10) @ [of_nat (48 + n mod 10)])"

declare show_nat.simps [simp del]

definition show_int :: "int \<Rightarrow> jsstring" where
  "show_int i = (if i < 0 then js ''-'' @ show_nat (nat (- i)) else show_nat (nat i))"

subsection \<open>Numbers\<close>

text \<open>
  A JavaScript number is an IEEE 754 binary64 value, and every arithmetic operation
  returns the exact result rounded to the nearest such value, ties to the even
  significand. Finite numbers are modelled by the rationals they denote; \<open>fl\<close> is the
  rounding (53-bit significand, gradual underflow below \<open>2^-1022\<close>), with an
  exponent that is not bounded above: a rounded result of magnitude \<open>2^1024\<close> or more
  is the one that binary64 replaces by Infinity or -Infinity, which \<open>isFinite\<close> tests.
  Infinity and NaN are not values of the model: a function that can produce one, by
  dividing by zero or by overflow, says so in its result type. Integers up to \<open>2^53\<close>
  are exact.
\<close>

type_synonym number = rat

text \<open>The number of binary digits of a positive integer.\<close>

function bit_length :: "int \<Rightarrow> nat" where
  "bit_length n = (if n \<le> 0 then 0 else Suc (bit_length (n div 2)))"
  by pat_completeness auto
termination
  by (relation "measure nat") auto

declare bit_length.simps [simp del]

definition pow2 :: "int \<Rightarrow> rat" where
  "pow2 e = (if 0 \<le> e then 2 ^ nat e else 1 / 2 ^ nat (- e))"

definition round_half_even :: "rat \<Rightarrow> int" where
  "round_half_even q =
     (let f = \<lfloor>q\<rfloor>; d = q - of_int f
      in if d < 1 / 2 then f else if 1 / 2 < d then f + 1 else if even f then f else f + 1)"

text \<open>For \<open>x > 0\<close>, the exponent \<open>e\<close> with \<open>2^e \<le> x < 2^(e+1)\<close>.\<close>

definition binade :: "rat \<Rightarrow> int" where
  "binade x = (if 1 \<le> x then int (bit_length \<lfloor>x\<rfloor>) - 1
               else - int (bit_length (\<lceil>1 / x\<rceil> - 1)))"

definition fl :: "rat \<Rightarrow> number" where
  "fl x = (if x = 0 then 0
           else let m = \<bar>x\<bar>; e = max (binade m) (- 1022); u = pow2 (e - 52)
                in sgn x * of_int (round_half_even (m / u)) * u)"

definition fadd :: "number \<Rightarrow> number \<Rightarrow> number" where
  "fadd x y = fl (x + y)"

definition fsub :: "number \<Rightarrow> number \<Rightarrow> number" where
  "fsub x y = fl (x - y)"

definition fmul :: "number \<Rightarrow> number \<Rightarrow> number" where
  "fmul x y = fl (x * y)"

text \<open>Division by a number other than zero; callers test the divisor.\<close>

definition fdiv :: "number \<Rightarrow> number \<Rightarrow> number" where
  "fdiv x y = fl (x / y)"

text \<open>
  Whether a rounded result is a finite binary64 number, rather than an overflow: its
  magnitude is below \<open>2^1024\<close>, written as a power of \<open>2^32\<close>.
\<close>

definition isFinite :: "number \<Rightarrow> bool" where
  "isFinite x = (\<bar>x\<bar> < (2 ^ 32) ^ 32)"

text \<open>
  \<open>Number.prototype.toFixed(2)\<close>: the integer \<open>n\<close> with \<open>n / 100\<close> closest to the exact
  value of the number, the larger one on a tie, written with at least three digits and
  a point before the last two.
\<close>

definition toFixed2 :: "number \<Rightarrow> jsstring" where
  "toFixed2 x =
     (let m = \<bar>x\<bar>; n = nat \<lfloor>m * 100 + 1 / 2\<rfloor>
      in (if x < 0 then js ''-'' else []) @
         show_nat (n div 100) @ js ''.'' @ show_nat (n mod 100 div 10) @ show_nat (n mod 10))"

section \<open>Types of the library (types/interfaces.ts)\<close>

text \<open>The values of the enum \<open>CharsetPreset\<close>, in declaration order.\<close>

definition CharsetPreset_values :: "jsstring list" where
  "CharsetPreset_values =
     [js ''BLOCK'', js ''STANDARD'', js ''MINIMAL'', js ''EXTENDED'', js ''CUSTOM'']"

text \<open>
  The glyph ramps of \<open>CHARSET_MAP\<close>, darkest glyph first. BLOCK is U+2588 U+2588 U+2593
  U+2592 U+2591 and a space; in EXTENDED the backslash, the double quote and the
  apostrophe are written by their code units.
\<close>

definition block_charset :: jsstring where
  "block_charset = [0x2588, 0x2588, 0x2593, 0x2592, 0x2591, 0x20]"

definition std_charset :: jsstring where
  "std_charset = js ''@%#*+=-:. ''"

definition minimal_charset :: jsstring where
  "minimal_charset = js ''@+. ''"

definition extended_charset :: jsstring where
  "extended_charset =
     js ''$@B%8&WM#*oahkbdpqwmZO0QLCJUYXzcvunxrjft/'' @ [0x5C] @
     js ''|()1{}[]?-_+~<>i!lI;:,'' @ [0x22] @ js ''^`'' @ [0x27] @ js ''. ''"

definition CHARSET_MAP :: "jsstring \<Rightarrow> jsstring option" where
  "CHARSET_MAP = map_of
     [(js ''BLOCK'', block_charset), (js ''STANDARD'', std_charset),
      (js ''MINIMAL'', minimal_charset), (js ''EXTENDED'', extended_charset)]"

text \<open>
  \<open>AsciiConfig\<close> with every field present (\<open>Required<AsciiConfig>\<close>), and the same with
  every field optional, \<open>None\<close> standing for \<open>undefined\<close>. Width and height are
  character counts and are taken as integers.
\<close>

record AsciiConfig =
  charset :: jsstring
  inverted :: bool
  colored :: bool
  aspectRatio :: number
  width :: int
  height :: int
  optimized :: bool

record PartialConfig =
  charset_opt :: "jsstring option"
  inverted_opt :: "bool option"
  colored_opt :: "bool option"
  aspectRatio_opt :: "number option"
  width_opt :: "int option"
  height_opt :: "int option"
  optimized_opt :: "bool option"

text \<open>\<open>CharColor\<close>: the channels \<open>r\<close>, \<open>g\<close>, \<open>b\<close>, \<open>a\<close>.\<close>

record CharColor =
  red :: int
  green :: int
  blue :: int
  alpha :: int

text \<open>
  \<open>PixelData\<close>: the bytes of a \<open>Uint8ClampedArray\<close> in RGBA order, and the dimensions,
  which for an \<open>ImageData\<close> are unsigned.
\<close>

record PixelData =
  data :: "8 word list"
  pd_width :: nat
  pd_height :: nat

record AsciiMetadata =
  meta_width :: int
  meta_height :: int
  characterCount :: int
  processingTime :: number
  meta_charset :: jsstring
  hasColor :: bool

record ProcessedPixels =
  "text" :: jsstring
  html :: jsstring
  characters :: "jschar list list"
  colors :: "CharColor list list option"

record AsciiOutput = ProcessedPixels +
  metadata :: AsciiMetadata

section \<open>Errors\<close>

text \<open>One constructor for each \<open>throw\<close> of the source and each exception of the platform
  that the code can meet.\<close>

datatype error =
    CustomPresetRequiresString
  | CustomCharsetOnlyInvalid
  | InvalidCharsetConfiguration
  | CharsetEmpty
  | AspectRatioNotPositive
  | DimensionsNegative
  | WidthExceedsMaximum
  | HeightExceedsMaximum
  | TotalCharsExceedMaximum int
  | NoCanvasContext
  | SourceInvalidDimensions
  | DimensionExceedsMaximum
  | TotalPixelsExceedMaximum
  | CrossOriginSource
  | PlatformException
  | RangeError
  | TypeError
  | NonFiniteDimensions

text \<open>The messages of the errors that the source throws; those of the platform's
  exceptions are the platform's.\<close>

fun message :: "error \<Rightarrow> jsstring" where
  "message CustomPresetRequiresString = js ''CUSTOM preset requires a custom charset string''"
| "message CustomCharsetOnlyInvalid =
     js ''Custom charset contains only invalid characters. Characters <, >, '' @ [0x27] @
     js '', '' @ [0x22] @ js '', &, and ` are not allowed.''"
| "message InvalidCharsetConfiguration = js ''Invalid charset configuration''"
| "message CharsetEmpty = js ''Charset cannot be empty''"
| "message AspectRatioNotPositive = js ''Aspect ratio must be positive''"
| "message DimensionsNegative = js ''Width and height must be non-negative''"
| "message WidthExceedsMaximum = js ''Width exceeds maximum allowed (10000)''"
| "message HeightExceedsMaximum = js ''Height exceeds maximum allowed (10000)''"
| "message (TotalCharsExceedMaximum n) =
     js ''Total character count ('' @ show_int n @ js '') exceeds maximum allowed (25000000)''"
| "message NoCanvasContext = js ''Unable to obtain 2D canvas context''"
| "message SourceInvalidDimensions = js ''Source has invalid dimensions (0x0)''"
| "message DimensionExceedsMaximum = js ''Dimension exceeds maximum allowed (10000)''"
| "message TotalPixelsExceedMaximum =
     js ''Total pixel count exceeds maximum allowed (25000000)''"
| "message CrossOriginSource =
     js ''Cannot extract pixel data from cross-origin image. '' @
     js ''Ensure the image has proper CORS headers (crossOrigin='' @ [0x22] @
     js ''anonymous'' @ [0x22] @ js '') or use a same-origin image.''"
| "message e = []"

section \<open>Canvas helpers (utils/canvas-helpers.ts)\<close>

subsection \<open>extractPixelData\<close>

text \<open>
  An \<open>ImageSource\<close> is an \<open>ImageData\<close> or an element that the platform can draw. Of an
  element the code reads the natural width and height (\<open>source.width\<close>, or for an image
  or video \<open>source.width || videoWidth || 0\<close>), asks for a 2D context, and has the platform
  draw the element at a size and read the pixels back; the platform's part is the
  function \<open>draw\<close>, which may fail with a \<open>SecurityError\<close> or with another exception.
\<close>

datatype platform_error = SecurityError | OtherException

record Drawable =
  natural_width :: int
  natural_height :: int
  has_context :: bool
  draw :: "int \<Rightarrow> int \<Rightarrow> platform_error + PixelData"

datatype ImageSource = ImageData PixelData | Element Drawable

definition MAX_DIMENSION :: int where
  "MAX_DIMENSION = 10000"

definition MAX_PIXELS :: int where
  "MAX_PIXELS = 25000000"

definition extractPixelData :: "ImageSource \<Rightarrow> int option \<Rightarrow> int option \<Rightarrow> error + PixelData" where
  "extractPixelData source targetWidth targetHeight =
     (case source of
        ImageData d \<Rightarrow> Inr d
      | Element el \<Rightarrow>
          if \<not> has_context el then Inl NoCanvasContext
          else let sourceWidth = natural_width el; sourceHeight = natural_height el
          in if sourceWidth = 0 \<or> sourceHeight = 0 then Inl SourceInvalidDimensions
          else let finalWidth = (case targetWidth of Some w \<Rightarrow> w | None \<Rightarrow> sourceWidth);
                   finalHeight = (case targetHeight of Some h \<Rightarrow> h | None \<Rightarrow> sourceHeight)
          in if finalWidth > MAX_DIMENSION \<or> finalHeight > MAX_DIMENSION
             then Inl DimensionExceedsMaximum
          else if finalWidth * finalHeight > MAX_PIXELS then Inl TotalPixelsExceedMaximum
          else (case draw el finalWidth finalHeight of
                  Inl SecurityError \<Rightarrow> Inl CrossOriginSource
                | Inl OtherException \<Rightarrow> Inl PlatformException
                | Inr imageData \<Rightarrow> Inr imageData))"

subsection \<open>calculateLuminance and luminanceToChar\<close>

text \<open>The literals \<open>0.299\<close>, \<open>0.587\<close> and \<open>0.114\<close> are the binary64 values nearest to them.\<close>

definition calculateLuminance :: "number \<Rightarrow> number \<Rightarrow> number \<Rightarrow> number" where
  "calculateLuminance r g b =
     fadd (fadd (fmul (fl (299 / 1000)) r) (fmul (fl (587 / 1000)) g)) (fmul (fl (114 / 1000)) b)"

text \<open>
  The index that \<open>luminanceToChar\<close> computes, and the glyph. \<open>charset[i]\<close> is \<open>undefined\<close>
  when the charset is empty (the clamped index is then 0), which is \<open>None\<close> here. A
  product that overflows to Infinity or -Infinity is clamped like the number of the same
  sign that stands for it, to the last index or to 0.
\<close>

definition luminanceIndex :: "number \<Rightarrow> jsstring \<Rightarrow> bool \<Rightarrow> int" where
  "luminanceIndex luminance cs invert =
     (let normalizedLuminance = fdiv luminance 255;
          adjustedLuminance = (if invert then fsub 1 normalizedLuminance else normalizedLuminance);
          index = \<lfloor>fmul adjustedLuminance (of_int (int (length cs) - 1))\<rfloor>
      in max 0 (min (int (length cs) - 1) index))"

definition luminanceToChar :: "number \<Rightarrow> jsstring \<Rightarrow> bool \<Rightarrow> jschar option" where
  "luminanceToChar luminance cs invert =
     (let clampedIndex = luminanceIndex luminance cs invert
      in if nat clampedIndex < length cs then Some (cs ! nat clampedIndex) else None)"

subsection \<open>calculateDimensions\<close>

text \<open>
  A target of \<open>undefined\<close> or of 0 is falsy: \<open>truthy\<close> keeps a target that the \<open>if\<close>
  accepts. The quotient of the source dimensions is Infinity or NaN when the divisor
  is 0, and a quotient or a product overflows to Infinity when its rounding is not
  finite; every later operation then yields Infinity or NaN, and so does \<open>Math.floor\<close>.
  The result \<open>None\<close> stands for a dimension that is not a finite number.
\<close>

definition truthy :: "int option \<Rightarrow> int option" where
  "truthy t = (case t of None \<Rightarrow> None | Some n \<Rightarrow> if n = 0 then None else Some n)"

definition calculateDimensions ::
  "int \<Rightarrow> int \<Rightarrow> int option \<Rightarrow> int option \<Rightarrow> number \<Rightarrow> (int \<times> int) option" where
  "calculateDimensions sourceWidth sourceHeight targetWidth targetHeight ar =
     (case truthy targetWidth of
        Some tw \<Rightarrow>
          if sourceWidth = 0 then None
          else let ratio = fdiv (of_int sourceHeight) (of_int sourceWidth);
                   scaled = fmul ratio (of_int tw);
                   product = fmul scaled ar
               in if isFinite ratio \<and> isFinite scaled \<and> isFinite product
                  then Some (tw, \<lfloor>product\<rfloor>) else None
      | None \<Rightarrow>
          (case truthy targetHeight of
             Some th \<Rightarrow>
               if sourceHeight = 0 \<or> ar = 0 then None
               else let ratio = fdiv (of_int sourceWidth) (of_int sourceHeight);
                        scaled = fmul ratio (of_int th);
                        quotient = fdiv scaled ar
                    in if isFinite ratio \<and> isFinite scaled \<and> isFinite quotient
                       then Some (\<lfloor>quotient\<rfloor>, th) else None
           | None \<Rightarrow>
               if sourceWidth = 0 then None
               else let defaultWidth = min 100 sourceWidth;
                        ratio = fdiv (of_int sourceHeight) (of_int sourceWidth);
                        scaled = fmul ratio (of_int defaultWidth);
                        product = fmul scaled ar
                    in if isFinite ratio \<and> isFinite scaled \<and> isFinite product
                       then Some (defaultWidth, \<lfloor>product\<rfloor>) else None))"

subsection \<open>samplePixelColor\<close>

text \<open>
  The running sums of the four channels and the number of samples. The grid position
  and the grid size are counts, so the pixel coordinates start at a floor that is not
  negative and the loops run over naturals; the byte read at \<open>index\<close> is guarded by
  \<open>index + 3 < data.length\<close> as in the source.
\<close>

record Sums =
  sum_r :: int
  sum_g :: int
  sum_b :: int
  sum_a :: int
  sampleCount :: nat

definition add_pixel :: "PixelData \<Rightarrow> nat \<Rightarrow> nat \<Rightarrow> Sums \<Rightarrow> Sums" where
  "add_pixel pd y x s =
     (let index = (y * pd_width pd + x) * 4
      in if index + 3 < length (data pd)
         then \<lparr>sum_r = sum_r s + uint (data pd ! index),
               sum_g = sum_g s + uint (data pd ! (index + 1)),
               sum_b = sum_b s + uint (data pd ! (index + 2)),
               sum_a = sum_a s + uint (data pd ! (index + 3)),
               sampleCount = sampleCount s + 1\<rparr>
         else s)"

function sample_row :: "PixelData \<Rightarrow> nat \<Rightarrow> nat \<Rightarrow> nat \<Rightarrow> Sums \<Rightarrow> Sums" where
  "sample_row pd y endX x s =
     (if x < endX \<and> x < pd_width pd then sample_row pd y endX (x + 1) (add_pixel pd y x s)
      else s)"
  by pat_completeness auto
termination
  by (relation "measure (\<lambda>(pd, y, endX, x, s). endX - x)") auto

declare sample_row.simps [simp del]

function sample_rows :: "PixelData \<Rightarrow> nat \<Rightarrow> nat \<Rightarrow> nat \<Rightarrow> nat \<Rightarrow> Sums \<Rightarrow> Sums" where
  "sample_rows pd startX endX endY y s =
     (if y < endY \<and> y < pd_height pd
      then sample_rows pd startX endX endY (y + 1) (sample_row pd y endX startX s)
      else s)"
  by pat_completeness auto
termination
  by (relation "measure (\<lambda>(pd, startX, endX, endY, y, s). endY - y)") auto

declare sample_rows.simps [simp del]

text \<open>The bounds of the cell: \<open>Math.floor(i * (extent / gridSize))\<close>.\<close>

definition cell_bound :: "nat \<Rightarrow> nat \<Rightarrow> nat \<Rightarrow> nat" where
  "cell_bound extent gridSize i =
     nat \<lfloor>fmul (of_nat i) (fdiv (of_nat extent) (of_nat gridSize))\<rfloor>"

text \<open>
  With a grid size of 0 the cell size is Infinity or NaN, so is each bound, and the
  loops do not run: no sample.
\<close>

definition samplePixelColor :: "PixelData \<Rightarrow> nat \<Rightarrow> nat \<Rightarrow> nat \<Rightarrow> nat \<Rightarrow> CharColor" where
  "samplePixelColor pd gridX gridY gridWidth gridHeight =
     (let s = (if gridWidth = 0 \<or> gridHeight = 0
               then \<lparr>sum_r = 0, sum_g = 0, sum_b = 0, sum_a = 0, sampleCount = 0\<rparr>
               else let startX = cell_bound (pd_width pd) gridWidth gridX;
                        startY = cell_bound (pd_height pd) gridHeight gridY;
                        endX = cell_bound (pd_width pd) gridWidth (gridX + 1);
                        endY = cell_bound (pd_height pd) gridHeight (gridY + 1)
                    in sample_rows pd startX endX endY startY
                         \<lparr>sum_r = 0, sum_g = 0, sum_b = 0, sum_a = 0, sampleCount = 0\<rparr>)
      in if sampleCount s = 0 then \<lparr>red = 0, green = 0, blue = 0, alpha = 255\<rparr>
         else \<lparr>red = \<lfloor>fdiv (of_int (sum_r s)) (of_nat (sampleCount s))\<rfloor>,
               green = \<lfloor>fdiv (of_int (sum_g s)) (of_nat (sampleCount s))\<rfloor>,
               blue = \<lfloor>fdiv (of_int (sum_b s)) (of_nat (sampleCount s))\<rfloor>,
               alpha = \<lfloor>fdiv (of_int (sum_a s)) (of_nat (sampleCount s))\<rfloor>\<rparr>)"

subsection \<open>rgbToCSS\<close>

definition rgbToCSS :: "int \<Rightarrow> int \<Rightarrow> int \<Rightarrow> int \<Rightarrow> jsstring" where
  "rgbToCSS r g b a =
     (let clampedR = max 0 (min 255 r);
          clampedG = max 0 (min 255 g);
          clampedB = max 0 (min 255 b);
          clampedA = max 0 (min 255 a);
          alpha_str = toFixed2 (fdiv (of_int clampedA) 255)
      in js ''rgba('' @ show_int clampedR @ js '','' @ show_int clampedG @ js '','' @
         show_int clampedB @ js '','' @ alpha_str @ js '')'')"

section \<open>The generator (core/ascii-engine.ts)\<close>

text \<open>The two fields of an \<open>AsciiGenerator\<close>: \<open>this.config\<close> and \<open>this.charset\<close>.\<close>

record Generator =
  config :: AsciiConfig
  gen_charset :: jsstring

subsection \<open>resolveCharset\<close>

text \<open>The class of the regular expression \<open>/[<>'"&`]/g\<close>.\<close>

definition unsafe_chars :: "jschar list" where
  "unsafe_chars = [0x3C, 0x3E, 0x27, 0x22, 0x26, 0x60]"

text \<open>
  \<open>CHARSET_MAP\<close> has an entry for every preset but CUSTOM, so its lookup below cannot
  miss; a miss would leave \<open>this.charset\<close> undefined and the next read of its length
  would throw a \<open>TypeError\<close>.
\<close>

definition resolveCharset :: "jsstring \<Rightarrow> error + jsstring" where
  "resolveCharset cs =
     (if cs \<in> set CharsetPreset_values then
        (if cs = js ''CUSTOM'' then Inl CustomPresetRequiresString
         else (case CHARSET_MAP cs of Some preset \<Rightarrow> Inr preset | None \<Rightarrow> Inl TypeError))
      else if length cs > 0 then
        (let sanitized = replace_class unsafe_chars (\<lambda>c. []) cs
         in if length sanitized = 0 then Inl CustomCharsetOnlyInvalid else Inr sanitized)
      else Inl InvalidCharsetConfiguration)"

subsection \<open>validateConfig\<close>

definition MAX_TOTAL_CHARS :: int where
  "MAX_TOTAL_CHARS = 25000000"

definition validateConfig :: "Generator \<Rightarrow> error + unit" where
  "validateConfig g =
     (if length (gen_charset g) = 0 then Inl CharsetEmpty
      else if aspectRatio (config g) \<le> 0 then Inl AspectRatioNotPositive
      else if width (config g) < 0 \<or> height (config g) < 0 then Inl DimensionsNegative
      else if width (config g) > MAX_DIMENSION then Inl WidthExceedsMaximum
      else if height (config g) > MAX_DIMENSION then Inl HeightExceedsMaximum
      else if width (config g) > 0 \<and> height (config g) > 0 \<and>
              width (config g) * height (config g) > MAX_TOTAL_CHARS
           then Inl (TotalCharsExceedMaximum (width (config g) * height (config g)))
      else Inr ())"

subsection \<open>The constructor\<close>

text \<open>The default of \<open>aspectRatio\<close> is the literal \<open>0.55\<close>: the binary64 value nearest to 11/20.\<close>

definition apply_defaults :: "PartialConfig \<Rightarrow> AsciiConfig" where
  "apply_defaults c =
     \<lparr>charset = (case charset_opt c of Some v \<Rightarrow> v | None \<Rightarrow> js ''STANDARD''),
      inverted = (case inverted_opt c of Some v \<Rightarrow> v | None \<Rightarrow> False),
      colored = (case colored_opt c of Some v \<Rightarrow> v | None \<Rightarrow> False),
      aspectRatio = (case aspectRatio_opt c of Some v \<Rightarrow> v | None \<Rightarrow> fl (11 / 20)),
      width = (case width_opt c of Some v \<Rightarrow> v | None \<Rightarrow> 0),
      height = (case height_opt c of Some v \<Rightarrow> v | None \<Rightarrow> 0),
      optimized = (case optimized_opt c of Some v \<Rightarrow> v | None \<Rightarrow> True)\<rparr>"

definition AsciiGenerator :: "PartialConfig \<Rightarrow> error + Generator" where
  "AsciiGenerator c =
     (let cfg = apply_defaults c
      in case resolveCharset (charset cfg) of
           Inl e \<Rightarrow> Inl e
         | Inr cs \<Rightarrow>
             (let g = \<lparr>config = cfg, gen_charset = cs\<rparr>
              in case validateConfig g of Inl e \<Rightarrow> Inl e | Inr u \<Rightarrow> Inr g))"

subsection \<open>updateConfig\<close>

text \<open>
  The method assigns field by field to the generator and validates last. Its result is
  the exception it threw, if any, and the generator as the call leaves it.
\<close>

definition assign_fields :: "PartialConfig \<Rightarrow> AsciiConfig \<Rightarrow> AsciiConfig" where
  "assign_fields c cfg =
     cfg\<lparr>inverted := (case inverted_opt c of Some v \<Rightarrow> v | None \<Rightarrow> inverted cfg),
         colored := (case colored_opt c of Some v \<Rightarrow> v | None \<Rightarrow> colored cfg),
         aspectRatio := (case aspectRatio_opt c of Some v \<Rightarrow> v | None \<Rightarrow> aspectRatio cfg),
         width := (case width_opt c of Some v \<Rightarrow> v | None \<Rightarrow> width cfg),
         height := (case height_opt c of Some v \<Rightarrow> v | None \<Rightarrow> height cfg),
         optimized := (case optimized_opt c of Some v \<Rightarrow> v | None \<Rightarrow> optimized cfg)\<rparr>"

definition assign_and_validate :: "PartialConfig \<Rightarrow> Generator \<Rightarrow> error option \<times> Generator" where
  "assign_and_validate c g =
     (let g' = g\<lparr>config := assign_fields c (config g)\<rparr>
      in case validateConfig g' of Inl e \<Rightarrow> (Some e, g') | Inr u \<Rightarrow> (None, g'))"

definition updateConfig :: "Generator \<Rightarrow> PartialConfig \<Rightarrow> error option \<times> Generator" where
  "updateConfig g c =
     (case charset_opt c of
        Some cs \<Rightarrow>
          (let g1 = g\<lparr>config := (config g)\<lparr>charset := cs\<rparr>\<rparr>
           in case resolveCharset cs of
                Inl e \<Rightarrow> (Some e, g1)
              | Inr r \<Rightarrow> assign_and_validate c (g1\<lparr>gen_charset := r\<rparr>))
      | None \<Rightarrow> assign_and_validate c g)"

subsection \<open>escapeHtml and buildHtmlOutput\<close>

definition html_chars :: "jschar list" where
  "html_chars = [0x26, 0x3C, 0x3E, 0x22, 0x27, 0x60]"

definition escape_map :: "jschar \<Rightarrow> jsstring option" where
  "escape_map = map_of
     [(0x26, js ''&amp;''), (0x3C, js ''&lt;''), (0x3E, js ''&gt;''),
      (0x22, js ''&quot;''), (0x27, js ''&#039;''), (0x60, js ''&#96;'')]"

text \<open>A replacer that returns \<open>undefined\<close> makes \<open>replace\<close> insert the word.\<close>

definition escapeHtml :: "jsstring \<Rightarrow> jsstring" where
  "escapeHtml txt =
     replace_class html_chars
       (\<lambda>c. case escape_map c of Some s \<Rightarrow> s | None \<Rightarrow> js ''undefined'') txt"

definition buildHtmlOutput :: "Generator \<Rightarrow> jsstring list \<Rightarrow> jsstring" where
  "buildHtmlOutput g ls =
     (let preStyle =
        (if colored (config g)
         then js ''style='' @ [0x22] @
              js ''font-family:monospace;line-height:1;white-space:pre;background:#000'' @ [0x22]
         else js ''style='' @ [0x22] @
              js ''font-family:monospace;line-height:1;white-space:pre'' @ [0x22])
      in js ''<pre '' @ preStyle @ js ''>'' @ join [0x0A] ls @ js ''</pre>'')"

subsection \<open>processPixelData\<close>

text \<open>
  An array is the list of its assigned slots. \<open>new Array(n)\<close> and the assignment to
  \<open>length\<close> of the optimized mode throw a \<open>RangeError\<close> unless \<open>n\<close> is an array length;
  the loops then assign slot 0, slot 1 and so on, which appends in both modes.
\<close>

definition array_length_ok :: "int \<Rightarrow> bool" where
  "array_length_ok n = (0 \<le> n \<and> n < 2 ^ 32)"

record RowState =
  charRow :: "jschar list"
  colorRow :: "CharColor list option"
  lineText :: jsstring
  htmlLine :: jsstring

text \<open>The markup of one cell: the escaped glyph, inside a styled span when colored.\<close>

definition cell_html :: "bool \<Rightarrow> CharColor \<Rightarrow> jschar \<Rightarrow> jsstring" where
  "cell_html col color ch =
     (if col
      then js ''<span style='' @ [0x22] @ js ''color:'' @
           rgbToCSS (red color) (green color) (blue color) (alpha color) @ [0x22] @ js ''>'' @
           escapeHtml [ch] @ js ''</span>''
      else escapeHtml [ch])"

text \<open>
  The body of the inner loop. A glyph of \<open>undefined\<close> (empty charset) reaches
  \<open>escapeHtml\<close>, whose call of \<open>replace\<close> on it throws a \<open>TypeError\<close>.
\<close>

definition cell_step ::
  "Generator \<Rightarrow> PixelData \<Rightarrow> int \<Rightarrow> int \<Rightarrow> nat \<Rightarrow> nat \<Rightarrow> RowState \<Rightarrow> error + RowState" where
  "cell_step g pd w h y x st =
     (let color = samplePixelColor pd x y (nat w) (nat h);
          luminance = calculateLuminance (of_int (red color)) (of_int (green color))
                        (of_int (blue color))
      in case luminanceToChar luminance (gen_charset g) (inverted (config g)) of
           None \<Rightarrow> Inl TypeError
         | Some ch \<Rightarrow>
             Inr \<lparr>charRow = charRow st @ [ch],
                  colorRow = map_option (\<lambda>row. row @ [color]) (colorRow st),
                  lineText = lineText st @ [ch],
                  htmlLine = htmlLine st @ cell_html (colored (config g)) color ch\<rparr>)"

function row_loop ::
  "Generator \<Rightarrow> PixelData \<Rightarrow> int \<Rightarrow> int \<Rightarrow> nat \<Rightarrow> nat \<Rightarrow> RowState \<Rightarrow> error + RowState" where
  "row_loop g pd w h y x st =
     (if int x < w
      then (case cell_step g pd w h y x st of
              Inl e \<Rightarrow> Inl e
            | Inr st' \<Rightarrow> row_loop g pd w h y (x + 1) st')
      else Inr st)"
  by pat_completeness auto
termination
  by (relation "measure (\<lambda>(g, pd, w, h, y, x, st). nat w - x)") auto

declare row_loop.simps [simp del]

record GridState =
  char_rows :: "jschar list list"
  color_rows :: "CharColor list list option"
  lines :: "jsstring list"
  htmlLines :: "jsstring list"

definition empty_row :: "Generator \<Rightarrow> RowState" where
  "empty_row g =
     \<lparr>charRow = [], colorRow = (if colored (config g) then Some [] else None),
      lineText = [], htmlLine = []\<rparr>"

definition push_row :: "RowState \<Rightarrow> GridState \<Rightarrow> GridState" where
  "push_row st gs =
     \<lparr>char_rows = char_rows gs @ [charRow st],
      color_rows = (case (colorRow st, color_rows gs) of
                      (Some row, Some rows) \<Rightarrow> Some (rows @ [row])
                    | _ \<Rightarrow> color_rows gs),
      lines = lines gs @ [lineText st],
      htmlLines = htmlLines gs @ [htmlLine st]\<rparr>"

function grid_loop ::
  "Generator \<Rightarrow> PixelData \<Rightarrow> int \<Rightarrow> int \<Rightarrow> nat \<Rightarrow> GridState \<Rightarrow> error + GridState" where
  "grid_loop g pd w h y gs =
     (if int y < h
      then (if optimized (config g) \<and> \<not> array_length_ok w then Inl RangeError
            else (case row_loop g pd w h y 0 (empty_row g) of
                    Inl e \<Rightarrow> Inl e
                  | Inr st \<Rightarrow> grid_loop g pd w h (y + 1) (push_row st gs)))
      else Inr gs)"
  by pat_completeness auto
termination
  by (relation "measure (\<lambda>(g, pd, w, h, y, gs). nat h - y)") auto

declare grid_loop.simps [simp del]

definition processPixelData ::
  "Generator \<Rightarrow> PixelData \<Rightarrow> int \<times> int \<Rightarrow> error + ProcessedPixels" where
  "processPixelData g pd dimensions =
     (let w = fst dimensions; h = snd dimensions
      in if optimized (config g) \<and> \<not> array_length_ok h then Inl RangeError
         else (case grid_loop g pd w h 0
                      \<lparr>char_rows = [],
                       color_rows = (if colored (config g) then Some [] else None),
                       lines = [], htmlLines = []\<rparr> of
                 Inl e \<Rightarrow> Inl e
               | Inr gs \<Rightarrow>
                   Inr \<lparr>text = join [0x0A] (lines gs),
                        html = buildHtmlOutput g (htmlLines gs),
                        characters = char_rows gs,
                        colors = color_rows gs\<rparr>))"

subsection \<open>convertImage\<close>

text \<open>
  \<open>this.config.width || undefined\<close> turns a width of 0 into \<open>undefined\<close>. The two
  readings of \<open>performance.now()\<close> are arguments. Dimensions that are not finite numbers
  are reported as such; the source is not followed further on them.
\<close>

definition or_undefined :: "int \<Rightarrow> int option" where
  "or_undefined n = (if n = 0 then None else Some n)"

definition convertImage :: "Generator \<Rightarrow> ImageSource \<Rightarrow> number \<Rightarrow> number \<Rightarrow> error + AsciiOutput" where
  "convertImage g source startTime endTime =
     (case extractPixelData source None None of
        Inl e \<Rightarrow> Inl e
      | Inr pixelData \<Rightarrow>
          (case calculateDimensions (int (pd_width pixelData)) (int (pd_height pixelData))
                  (or_undefined (width (config g))) (or_undefined (height (config g)))
                  (aspectRatio (config g)) of
             None \<Rightarrow> Inl NonFiniteDimensions
           | Some dimensions \<Rightarrow>
               (case extractPixelData source (Some (fst dimensions)) (Some (snd dimensions)) of
                  Inl e \<Rightarrow> Inl e
                | Inr resizedPixelData \<Rightarrow>
                    (case processPixelData g resizedPixelData dimensions of
                       Inl e \<Rightarrow> Inl e
                     | Inr result \<Rightarrow>
                         Inr \<lparr>text = text result, html = html result,
                              characters = characters result, colors = colors result,
                              metadata =
                                \<lparr>meta_width = fst dimensions, meta_height = snd dimensions,
                                 characterCount = fst dimensions * snd dimensions,
                                 processingTime = fsub endTime startTime,
                                 meta_charset = gen_charset g,
                                 hasColor = colored (config g)\<rparr>\<rparr>))))"

section \<open>Notions used to state the properties\<close>

subsection \<open>The formulas in exact arithmetic\<close>

text \<open>
  The height \<open>floor(sourceHeight / sourceWidth * targetWidth * aspectRatio)\<close> and the
  glyph index \<open>floor(L / 255 * (len - 1))\<close>, clamped to \<open>[0, len - 1]\<close>, are floors of
  products. These are the products in exact arithmetic, with no rounding, and the
  distance \<open>tolerance x\<close> within which a product \<open>x\<close> is compared with its value in
  binary64: the fraction \<open>2^-51\<close> of its magnitude, which covers three roundings, and
  \<open>2^-900\<close> for the roundings that underflow.
\<close>

definition height_product :: "int \<Rightarrow> int \<Rightarrow> int \<Rightarrow> rat \<Rightarrow> rat" where
  "height_product sourceWidth sourceHeight targetWidth ar =
     of_int sourceHeight / of_int sourceWidth * of_int targetWidth * ar"

definition index_product :: "rat \<Rightarrow> jsstring \<Rightarrow> rat" where
  "index_product luminance cs = luminance / 255 * of_int (int (length cs) - 1)"

definition exact_index :: "rat \<Rightarrow> jsstring \<Rightarrow> int" where
  "exact_index luminance cs =
     max 0 (min (int (length cs) - 1) \<lfloor>index_product luminance cs\<rfloor>)"

definition tolerance :: "rat \<Rightarrow> rat" where
  "tolerance x = \<bar>x\<bar> / 2 ^ 51 + 1 / 2 ^ 900"

subsection \<open>Cells\<close>

text \<open>
  The pixels that \<open>samplePixelColor\<close> is to average for a cell: those of the rectangle
  between the cell's bounds that lie inside the image and whose four bytes lie inside
  the data, row by row. \<open>channel pd k\<close> reads byte \<open>k\<close> of a pixel, and \<open>plus_pixels\<close>
  adds the channels of a list of pixels to running sums.
\<close>

definition row_pixels :: "PixelData \<Rightarrow> nat \<Rightarrow> nat \<Rightarrow> nat \<Rightarrow> (nat \<times> nat) list" where
  "row_pixels pd y startX endX =
     map (\<lambda>x. (x, y))
       (filter (\<lambda>x. (y * pd_width pd + x) * 4 + 3 < length (data pd))
          [startX ..< min endX (pd_width pd)])"

definition cell_pixels :: "PixelData \<Rightarrow> nat \<Rightarrow> nat \<Rightarrow> nat \<Rightarrow> nat \<Rightarrow> (nat \<times> nat) list" where
  "cell_pixels pd gridX gridY gridWidth gridHeight =
     concat (map (\<lambda>y. row_pixels pd y (cell_bound (pd_width pd) gridWidth gridX)
                          (cell_bound (pd_width pd) gridWidth (gridX + 1)))
               [cell_bound (pd_height pd) gridHeight gridY ..<
                min (cell_bound (pd_height pd) gridHeight (gridY + 1)) (pd_height pd)])"

text \<open>
  The rectangle of a cell without reference to the code: \<open>exact_bound\<close> is the bound
  \<open>floor(i * (extent / gridSize))\<close> in exact arithmetic, \<open>rectangle_pixels\<close> lists the
  pixels between four given bounds that lie inside the image and the data, and
  \<open>exact_cell_pixels\<close> those of the cell
  \<open>[floor(x * cw), floor((x + 1) * cw)) \<times> [floor(y * ch), floor((y + 1) * ch))\<close>.
  A bound \<open>b\<close> is near the exact one when it is equal to it, or one below it in the one
  case where rounding can matter: \<open>i * extent / gridSize\<close> is an integer although
  \<open>extent / gridSize\<close> is not.
\<close>

definition exact_bound :: "nat \<Rightarrow> nat \<Rightarrow> nat \<Rightarrow> nat" where
  "exact_bound extent gridSize i = nat \<lfloor>rat_of_nat i * (of_nat extent / of_nat gridSize)\<rfloor>"

definition near_exact_bound :: "nat \<Rightarrow> nat \<Rightarrow> nat \<Rightarrow> nat \<Rightarrow> bool" where
  "near_exact_bound extent gridSize i b =
     (b = exact_bound extent gridSize i \<or>
      (gridSize dvd i * extent \<and> \<not> gridSize dvd extent \<and>
       b + 1 = exact_bound extent gridSize i))"

definition rectangle_pixels ::
  "PixelData \<Rightarrow> nat \<Rightarrow> nat \<Rightarrow> nat \<Rightarrow> nat \<Rightarrow> (nat \<times> nat) list" where
  "rectangle_pixels pd startX endX startY endY =
     concat (map (\<lambda>y. row_pixels pd y startX endX) [startY ..< min endY (pd_height pd)])"

definition exact_cell_pixels ::
  "PixelData \<Rightarrow> nat \<Rightarrow> nat \<Rightarrow> nat \<Rightarrow> nat \<Rightarrow> (nat \<times> nat) list" where
  "exact_cell_pixels pd gridX gridY gridWidth gridHeight =
     rectangle_pixels pd
       (exact_bound (pd_width pd) gridWidth gridX)
       (exact_bound (pd_width pd) gridWidth (gridX + 1))
       (exact_bound (pd_height pd) gridHeight gridY)
       (exact_bound (pd_height pd) gridHeight (gridY + 1))"

definition channel :: "PixelData \<Rightarrow> nat \<Rightarrow> nat \<times> nat \<Rightarrow> int" where
  "channel pd k p = uint (data pd ! ((snd p * pd_width pd + fst p) * 4 + k))"

definition plus_pixels :: "PixelData \<Rightarrow> (nat \<times> nat) list \<Rightarrow> Sums \<Rightarrow> Sums" where
  "plus_pixels pd ps s =
     \<lparr>sum_r = sum_r s + sum_list (map (channel pd 0) ps),
      sum_g = sum_g s + sum_list (map (channel pd 1) ps),
      sum_b = sum_b s + sum_list (map (channel pd 2) ps),
      sum_a = sum_a s + sum_list (map (channel pd 3) ps),
      sampleCount = sampleCount s + length ps\<rparr>"

text \<open>
  The mean colour of a list of pixels, each channel rounded down: as the source
  computes it, by the floor of the binary64 quotient, and by integer division.
\<close>

definition rounded_mean :: "PixelData \<Rightarrow> (nat \<times> nat) list \<Rightarrow> CharColor" where
  "rounded_mean pd ps =
     \<lparr>red = \<lfloor>fdiv (of_int (sum_list (map (channel pd 0) ps))) (of_nat (length ps))\<rfloor>,
      green = \<lfloor>fdiv (of_int (sum_list (map (channel pd 1) ps))) (of_nat (length ps))\<rfloor>,
      blue = \<lfloor>fdiv (of_int (sum_list (map (channel pd 2) ps))) (of_nat (length ps))\<rfloor>,
      alpha = \<lfloor>fdiv (of_int (sum_list (map (channel pd 3) ps))) (of_nat (length ps))\<rfloor>\<rparr>"

definition floor_mean :: "PixelData \<Rightarrow> (nat \<times> nat) list \<Rightarrow> CharColor" where
  "floor_mean pd ps =
     \<lparr>red = sum_list (map (channel pd 0) ps) div int (length ps),
      green = sum_list (map (channel pd 1) ps) div int (length ps),
      blue = sum_list (map (channel pd 2) ps) div int (length ps),
      alpha = sum_list (map (channel pd 3) ps) div int (length ps)\<rparr>"

text \<open>The colour and the glyph that the inner loop of \<open>processPixelData\<close> computes for a cell.\<close>

definition cell_color :: "PixelData \<Rightarrow> int \<Rightarrow> int \<Rightarrow> nat \<Rightarrow> nat \<Rightarrow> CharColor" where
  "cell_color pd w h y x = samplePixelColor pd x y (nat w) (nat h)"

definition cell_glyph :: "Generator \<Rightarrow> PixelData \<Rightarrow> int \<Rightarrow> int \<Rightarrow> nat \<Rightarrow> nat \<Rightarrow> jschar option" where
  "cell_glyph g pd w h y x =
     luminanceToChar
       (calculateLuminance (of_int (red (cell_color pd w h y x)))
          (of_int (green (cell_color pd w h y x))) (of_int (blue (cell_color pd w h y x))))
       (gen_charset g) (inverted (config g))"

text \<open>
  What the inner loop is to add to a row for the cells at the columns \<open>xs\<close> of row \<open>y\<close>,
  when each of them has a glyph, and what the outer loop is to add for the rows \<open>ys\<close>.
\<close>

definition row_of_cells ::
  "Generator \<Rightarrow> PixelData \<Rightarrow> int \<Rightarrow> int \<Rightarrow> nat \<Rightarrow> nat list \<Rightarrow> RowState \<Rightarrow> RowState" where
  "row_of_cells g pd w h y xs st =
     \<lparr>charRow = charRow st @ map (\<lambda>x. the (cell_glyph g pd w h y x)) xs,
      colorRow = map_option (\<lambda>row. row @ map (cell_color pd w h y) xs) (colorRow st),
      lineText = lineText st @ map (\<lambda>x. the (cell_glyph g pd w h y x)) xs,
      htmlLine = htmlLine st @
        concat (map (\<lambda>x. cell_html (colored (config g)) (cell_color pd w h y x)
                             (the (cell_glyph g pd w h y x))) xs)\<rparr>"

definition grid_of_rows ::
  "Generator \<Rightarrow> PixelData \<Rightarrow> int \<Rightarrow> int \<Rightarrow> nat list \<Rightarrow> GridState \<Rightarrow> GridState" where
  "grid_of_rows g pd w h ys gs =
     \<lparr>char_rows = char_rows gs @
        map (\<lambda>y. map (\<lambda>x. the (cell_glyph g pd w h y x)) [0 ..< nat w]) ys,
      color_rows = map_option
        (\<lambda>rows. rows @ map (\<lambda>y. map (cell_color pd w h y) [0 ..< nat w]) ys) (color_rows gs),
      lines = lines gs @
        map (\<lambda>y. map (\<lambda>x. the (cell_glyph g pd w h y x)) [0 ..< nat w]) ys,
      htmlLines = htmlLines gs @
        map (\<lambda>y. concat (map (\<lambda>x. cell_html (colored (config g)) (cell_color pd w h y x)
                                      (the (cell_glyph g pd w h y x))) [0 ..< nat w])) ys\<rparr>"

subsection \<open>Decoding character references\<close>

text \<open>
  The reference against which escaping is checked: a decoder of the character
  references of the markup standard that an escaper can emit, namely the five
  predefined names and the decimal and hexadecimal references of a code unit, each
  from an ampersand to the next semicolon. Anything else is text.
\<close>

definition digit_value :: "jschar \<Rightarrow> nat option" where
  "digit_value c =
     (if 0x30 \<le> c \<and> c \<le> 0x39 then Some (unat c - 0x30)
      else if 0x61 \<le> c \<and> c \<le> 0x66 then Some (unat c - 0x61 + 10)
      else if 0x41 \<le> c \<and> c \<le> 0x46 then Some (unat c - 0x41 + 10)
      else None)"

primrec digits_value :: "nat \<Rightarrow> nat \<Rightarrow> jsstring \<Rightarrow> nat option" where
  "digits_value base acc [] = Some acc"
| "digits_value base acc (c # cs) =
     (case digit_value c of
        None \<Rightarrow> None
      | Some d \<Rightarrow> if d < base then digits_value base (acc * base + d) cs else None)"

definition code_unit_of :: "nat option \<Rightarrow> jschar option" where
  "code_unit_of v =
     (case v of
        None \<Rightarrow> None
      | Some n \<Rightarrow> if 0 < n \<and> n < 0x10000 \<and> \<not> (0xD800 \<le> n \<and> n \<le> 0xDFFF)
                  then Some (of_nat n) else None)"

definition named_reference :: "jsstring \<Rightarrow> jschar option" where
  "named_reference = map_of
     [(js ''amp'', 0x26), (js ''lt'', 0x3C), (js ''gt'', 0x3E), (js ''quot'', 0x22),
      (js ''apos'', 0x27)]"

definition decode_reference :: "jsstring \<Rightarrow> jschar option" where
  "decode_reference body =
     (if take 2 body = js ''#x'' \<or> take 2 body = js ''#X''
      then (if drop 2 body = [] then None else code_unit_of (digits_value 16 0 (drop 2 body)))
      else if take 1 body = js ''#''
      then (if drop 1 body = [] then None else code_unit_of (digits_value 10 0 (drop 1 body)))
      else named_reference body)"

function decode_entities :: "jsstring \<Rightarrow> jsstring" where
  "decode_entities [] = []"
| "decode_entities (c # cs) =
     (let body = takeWhile (\<lambda>d. d \<noteq> 0x3B) cs
      in case (if c = 0x26 \<and> length body < length cs then decode_reference body else None) of
           Some ch \<Rightarrow> ch # decode_entities (drop (length body + 1) cs)
         | None \<Rightarrow> c # decode_entities cs)"
  by pat_completeness auto
termination
  by (relation "measure length") auto

declare decode_entities.simps [simp del]

subsection \<open>Inputs of the scenarios\<close>

text \<open>The configuration object \<open>{}\<close>, and the 2 by 2 image whose pixels are all opaque black.\<close>

definition no_options :: PartialConfig where
  "no_options =
     \<lparr>charset_opt = None, inverted_opt = None, colored_opt = None, aspectRatio_opt = None,
      width_opt = None, height_opt = None, optimized_opt = None\<rparr>"

definition solid_black_2x2 :: PixelData where
  "solid_black_2x2 =
     \<lparr>data = [0, 0, 0, 255, 0, 0, 0, 255, 0, 0, 0, 255, 0, 0, 0, 255],
      pd_width = 2, pd_height = 2\<rparr>"

text \<open>A 2 by 2 image with four different pixels.\<close>

definition four_pixels :: PixelData where
  "four_pixels =
     \<lparr>data = [10, 20, 30, 255, 51, 60, 70, 255, 90, 101, 110, 254, 130, 140, 153, 255],
      pd_width = 2, pd_height = 2\<rparr>"

text \<open>A custom charset of 52 glyphs, the letters.\<close>

definition letters :: jsstring where
  "letters = js ''abcdefghijklmnopqrstuvwxyzABCDEFGHIJKLMNOPQRSTUVWXYZ''"

text \<open>The generator that \<open>new AsciiGenerator()\<close> constructs.\<close>

definition default_generator :: Generator where
  "default_generator = \<lparr>config = apply_defaults no_options, gen_charset = std_charset\<rparr>"

text \<open>
  The generator that \<open>new AsciiGenerator({charset: 'EXTENDED', colored: true})\<close>
  constructs, and an image of one dark grey pixel, whose glyph in EXTENDED is \<open>&\<close>.
\<close>

definition extended_colored :: Generator where
  "extended_colored =
     \<lparr>config = (apply_defaults no_options)\<lparr>charset := js ''EXTENDED'', colored := True\<rparr>,
      gen_charset = extended_charset\<rparr>"

definition one_grey_pixel :: PixelData where
  "one_grey_pixel = \<lparr>data = [20, 20, 20, 255], pd_width = 1, pd_height = 1\<rparr>"

definition grey_pixel_output :: ProcessedPixels where
  "grey_pixel_output =
     \<lparr>text = js ''&'',
      html = js ''<pre style='' @ [0x22] @
             js ''font-family:monospace;line-height:1;white-space:pre;background:#000'' @
             [0x22] @ js ''><span style='' @ [0x22] @ js ''color:rgba(20,20,20,1.00)'' @
             [0x22] @ js ''>&amp;</span></pre>'',
      characters = [js ''&''],
      colors = Some [[\<lparr>red = 20, green = 20, blue = 20, alpha = 255\<rparr>]]\<rparr>"

text \<open>\<open>new AsciiGenerator(c).convertImage(source)\<close>.\<close>

definition convert_with ::
  "PartialConfig \<Rightarrow> ImageSource \<Rightarrow> number \<Rightarrow> number \<Rightarrow> error + AsciiOutput" where
  "convert_with c source startTime endTime =
     (case AsciiGenerator c of
        Inl e \<Rightarrow> Inl e
      | Inr g \<Rightarrow> convertImage g source startTime endTime)"

text \<open>The options of the end-to-end scenario: STANDARD, width 2, height 0, neither
  inverted nor colored, the default aspect ratio.\<close>

definition scenario_options :: PartialConfig where
  "scenario_options =
     \<lparr>charset_opt = Some (js ''STANDARD''), inverted_opt = Some False,
      colored_opt = Some False, aspectRatio_opt = None, width_opt = Some 2,
      height_opt = Some 0, optimized_opt = None\<rparr>"

section \<open>Configuration: charset resolution and limits\<close>

lemma replace_class_drop: "replace_class cls (\<lambda>c. []) cs = filter (\<lambda>c. c \<notin> set cls) cs"
  by (induction cs) simp_all

text \<open>
  Claim C1. A generator constructed with \<open>colored = true\<close> and a width and height whose
  product exceeds 1,000,000 is to be refused with a message about colored output. The
  code does not do so: \<open>validateConfig\<close> never reads \<open>colored\<close>, and the constructor
  accepts width 2000 and height 2000 with \<open>colored = true\<close>.
\<close>

theorem colored_limit_not_enforced:
  "AsciiGenerator
     (no_options\<lparr>width_opt := Some 2000, height_opt := Some 2000, colored_opt := Some True\<rparr>)
   = Inr \<lparr>config = \<lparr>charset = js ''STANDARD'', inverted = False, colored = True,
                      aspectRatio = fl (11 / 20), width = 2000, height = 2000,
                      optimized = True\<rparr>,
          gen_charset = std_charset\<rparr>"
  by code_simp

text \<open>
  Claim C7. A charset that is not the name of a preset is resolved by removing exactly
  the code units of \<open><\<close>, \<open>>\<close>, the apostrophe, the double quote, \<open>&\<close> and the backtick and
  keeping the others in order; when nothing is left the resolution is an error. The
  charset \<open><script>\<close> resolves to \<open>script\<close>.
\<close>

theorem resolveCharset_custom:
  "(cs \<notin> set CharsetPreset_values \<longrightarrow>
      resolveCharset cs =
        (if filter (\<lambda>c. c \<notin> {0x3C, 0x3E, 0x27, 0x22, 0x26, 0x60}) cs = []
         then Inl (if cs = [] then InvalidCharsetConfiguration else CustomCharsetOnlyInvalid)
         else Inr (filter (\<lambda>c. c \<notin> {0x3C, 0x3E, 0x27, 0x22, 0x26, 0x60}) cs)))
   \<and> resolveCharset (js ''<script>'') = Inr (js ''script'')"
proof
  show "cs \<notin> set CharsetPreset_values \<longrightarrow>
      resolveCharset cs =
        (if filter (\<lambda>c. c \<notin> {0x3C, 0x3E, 0x27, 0x22, 0x26, 0x60}) cs = []
         then Inl (if cs = [] then InvalidCharsetConfiguration else CustomCharsetOnlyInvalid)
         else Inr (filter (\<lambda>c. c \<notin> {0x3C, 0x3E, 0x27, 0x22, 0x26, 0x60}) cs))"
    by (simp add: resolveCharset_def replace_class_drop unsafe_chars_def Let_def)
  show "resolveCharset (js ''<script>'') = Inr (js ''script'')"
    by code_simp
qed

theorem resolveCharset_custom_witness:
  "js ''a&b'' \<notin> set CharsetPreset_values \<and> resolveCharset (js ''a&b'') = Inr (js ''ab'')"
proof -
  have h: "js ''a&b'' \<notin> set CharsetPreset_values"
    by code_simp
  have f: "filter (\<lambda>c. c \<notin> {0x3C, 0x3E, 0x27, 0x22, 0x26, 0x60}) (js ''a&b'') = js ''ab''"
    by (simp add: js_def)
  from resolveCharset_custom [of "js ''a&b''"] h f show ?thesis
    by (simp add: js_def)
qed

section \<open>Configuration updates\<close>





section \<open>Rounding\<close>

text \<open>
  The rounding \<open>fl\<close> moves a number by at most the fraction \<open>2^-53\<close> of its magnitude,
  or by \<open>2^-1075\<close> where it underflows. The bound is carried through a product by
  \<open>fl_scaled_error\<close>, and a floor is not changed by an error that stays between two
  integers.
\<close>

lemma pow2_powi: "pow2 e = 2 powi e"
  by (simp add: pow2_def power_int_def power_one_over inverse_eq_divide)

lemma bit_length_bounds:
  "0 < n \<Longrightarrow> 2 ^ (bit_length n - 1) \<le> n \<and> n < 2 ^ bit_length n"
proof (induction n rule: bit_length.induct)
  case (1 n)
  then have n: "\<not> n \<le> 0" by simp
  have bl: "bit_length n = Suc (bit_length (n div 2))"
    using n by (subst bit_length.simps) simp
  have half: "2 * (n div 2) \<le> n" "n \<le> 2 * (n div 2) + 1"
    by presburger+
  show ?case
  proof (cases "n div 2 \<le> 0")
    case True
    with n half have "n = 1" by linarith
    moreover have "bit_length (0::int) = 0" by (subst bit_length.simps) simp
    ultimately show ?thesis using bl by simp
  next
    case False
    then have pos: "0 < n div 2" by simp
    from "1.IH" [OF n pos]
    have lo: "2 ^ (bit_length (n div 2) - 1) \<le> n div 2"
      and hi: "n div 2 < 2 ^ bit_length (n div 2)"
      by simp_all
    have nz: "bit_length (n div 2) \<noteq> 0"
      using False by (subst bit_length.simps) simp
    then have split: "(2::int) ^ bit_length (n div 2) = 2 * 2 ^ (bit_length (n div 2) - 1)"
      by (cases "bit_length (n div 2)") simp_all
    from lo split have "2 ^ bit_length (n div 2) \<le> 2 * (n div 2)"
      by simp
    also have "\<dots> \<le> n"
      by (rule half)
    finally have a: "2 ^ (bit_length n - 1) \<le> n"
      by (simp add: bl)
    from hi half have "n < 2 * 2 ^ bit_length (n div 2)"
      by linarith
    then have b: "n < 2 ^ bit_length n"
      by (simp add: bl)
    from a b show ?thesis ..
  qed
qed

lemma binade_le:
  assumes "0 < m"
  shows "pow2 (binade m) \<le> m"
proof (cases "1 \<le> m")
  case True
  define k where "k = \<lfloor>m\<rfloor>"
  from True have kpos: "0 < k"
    by (simp add: k_def)
  then have blpos: "0 < bit_length k"
    by (subst bit_length.simps) simp
  from bit_length_bounds [OF kpos] have "2 ^ (bit_length k - 1) \<le> k"
    by simp
  then have "(2::rat) ^ (bit_length k - 1) \<le> of_int k"
    by (metis of_int_le_iff of_int_numeral of_int_power)
  also have "\<dots> \<le> m"
    by (simp add: k_def)
  finally have "(2::rat) ^ (bit_length k - 1) \<le> m" .
  moreover have "pow2 (binade m) = 2 ^ (bit_length k - 1)"
    using True blpos by (simp add: binade_def pow2_def k_def nat_diff_distrib' of_nat_diff)
  ultimately show ?thesis by simp
next
  case False
  with assms have m: "0 < m" "m < 1" by simp_all
  define j where "j = \<lceil>1 / m\<rceil> - 1"
  from m have "1 < 1 / m"
    by (simp add: field_simps)
  then have c: "2 \<le> \<lceil>1 / m\<rceil>"
    by (simp add: le_ceiling_iff)
  then have jpos: "0 < j"
    by (simp add: j_def)
  from bit_length_bounds [OF jpos] have "j < 2 ^ bit_length j"
    by simp
  then have "\<lceil>1 / m\<rceil> \<le> 2 ^ bit_length j"
    by (simp add: j_def)
  then have "1 / m \<le> 2 ^ bit_length j"
    by (simp add: ceiling_le_iff)
  with m have "1 / 2 ^ bit_length j \<le> m"
    by (simp add: field_simps)
  moreover have "pow2 (binade m) = 1 / 2 ^ bit_length j"
    using False by (simp add: binade_def pow2_def j_def)
  ultimately show ?thesis by simp
qed

lemma round_half_even_error: "\<bar>of_int (round_half_even q) - q\<bar> \<le> 1 / 2"
proof -
  have "of_int \<lfloor>q\<rfloor> \<le> q" "q < of_int \<lfloor>q\<rfloor> + 1"
    by linarith+
  then show ?thesis
    by (auto simp add: round_half_even_def Let_def)
qed


lemma fl_error:
  "\<bar>fl x - x\<bar> \<le> \<bar>x\<bar> * pow2 (- 53) + pow2 (- 1075)"
proof (cases "x = 0")
  case True
  then show ?thesis
    by (simp add: fl_def pow2_def)
next
  case False
  define m where "m = \<bar>x\<bar>"
  define e where "e = max (binade m) (- 1022)"
  define u where "u = pow2 (e - 52)"
  define R where "R = round_half_even (m / u)"
  from False have mpos: "0 < m"
    by (simp add: m_def)
  have upos: "0 < u"
    by (simp add: u_def pow2_powi)
  have flx: "fl x = sgn x * of_int R * u"
    using False by (simp add: fl_def Let_def m_def e_def u_def R_def)
  have x: "x = sgn x * m"
    by (simp add: m_def mult_sgn_abs)
  have "fl x - x = sgn x * (of_int R * u - m)"
    by (subst x, subst flx) (simp add: algebra_simps)
  then have "\<bar>fl x - x\<bar> = \<bar>of_int R * u - m\<bar>"
    using False by (simp add: abs_mult abs_sgn_eq)
  also have "of_int R * u - m = (of_int R - m / u) * u"
    using upos by (simp add: field_simps)
  also have "\<bar>\<dots>\<bar> = \<bar>of_int R - m / u\<bar> * u"
    using upos by (simp add: abs_mult)
  also have "\<dots> \<le> 1 / 2 * u"
    using round_half_even_error [of "m / u"] upos
    unfolding R_def by (intro mult_right_mono) simp_all
  finally have half: "\<bar>fl x - x\<bar> \<le> u / 2"
    by simp
  have u2: "u / 2 = pow2 (e - 53)"
    unfolding u_def pow2_powi
    using power_int_add [of "2::rat" "e - 53" 1] by simp
  show ?thesis
  proof (cases "- 1022 \<le> binade m")
    case True
    then have e: "e = binade m"
      by (simp add: e_def)
    have "pow2 (e - 53) = pow2 e * pow2 (- 53)"
      unfolding pow2_powi using power_int_add [of "2::rat" e "- 53"] by simp
    also have "\<dots> \<le> m * pow2 (- 53)"
      using binade_le [OF mpos] by (intro mult_right_mono) (simp_all add: e pow2_powi)
    finally have "u / 2 \<le> \<bar>x\<bar> * pow2 (- 53)"
      by (simp add: u2 m_def)
    moreover have "0 \<le> pow2 (- 1075)"
      by (simp add: pow2_powi)
    ultimately show ?thesis
      using half by linarith
  next
    case False
    then have "e = - 1022"
      by (simp add: e_def)
    then have "u / 2 = pow2 (- 1075)"
      by (simp add: u2)
    moreover have "0 \<le> \<bar>x\<bar> * pow2 (- 53)"
      by (simp add: pow2_powi)
    ultimately show ?thesis
      using half by linarith
  qed
qed


lemma pow2_pos: "0 < pow2 e"
  by (simp add: pow2_def)

lemma round_half_even_nonneg: "0 \<le> q \<Longrightarrow> 0 \<le> round_half_even q"
  by (simp add: round_half_even_def Let_def)

lemma fl_nonneg: "0 \<le> x \<Longrightarrow> 0 \<le> fl x"
proof (cases "x = 0")
  case True
  then show ?thesis by (simp add: fl_def)
next
  case False
  assume "0 \<le> x"
  with False have "0 < x" by simp
  then show ?thesis
    by (simp add: fl_def Let_def round_half_even_nonneg pow2_pos order.strict_implies_order)
qed

lemma floor_close:
  fixes x y :: rat
  assumes "\<bar>x - y\<bar> < 1"
  shows "\<bar>\<lfloor>x\<rfloor> - \<lfloor>y\<rfloor>\<bar> \<le> 1"
proof -
  have "of_int \<lfloor>x\<rfloor> \<le> x" "x < of_int \<lfloor>x\<rfloor> + 1" "of_int \<lfloor>y\<rfloor> \<le> y" "y < of_int \<lfloor>y\<rfloor> + 1"
    by linarith+
  with assms have "(of_int \<lfloor>x\<rfloor> :: rat) < of_int \<lfloor>y\<rfloor> + 2" "(of_int \<lfloor>y\<rfloor> :: rat) < of_int \<lfloor>x\<rfloor> + 2"
    by linarith+
  then have "\<lfloor>x\<rfloor> < \<lfloor>y\<rfloor> + 2" "\<lfloor>y\<rfloor> < \<lfloor>x\<rfloor> + 2"
    by (metis of_int_add of_int_less_iff of_int_numeral)+
  then show ?thesis
    by linarith
qed

lemma adjusted_luminance_close:
  assumes "0 \<le> L" and "L \<le> 255"
  shows "\<bar>fsub 1 (fdiv L 255) - (1 - L / 255)\<bar> \<le> 4 * pow2 (- 53)"
    and "\<bar>fdiv (fsub 255 L) 255 - (1 - L / 255)\<bar> \<le> 4 * pow2 (- 53)"
proof -
  define eps where "eps = pow2 (- 53)"
  define eta where "eta = pow2 (- 1075)"
  have eps: "0 < eps" "eps \<le> 1 / 4"
    by (simp_all add: eps_def pow2_def)
  have eta: "0 < eta" "eta \<le> eps / 2"
    by (simp_all add: eps_def eta_def pow2_def)
  define t where "t = L / 255"
  from assms have t: "0 \<le> t" "t \<le> 1"
    by (simp_all add: t_def)
  define p where "p = fl t"
  have "\<bar>p - t\<bar> \<le> \<bar>t\<bar> * eps + eta"
    unfolding p_def eps_def eta_def by (rule fl_error)
  moreover from t eps have "\<bar>t\<bar> * eps \<le> 1 * eps"
    by (intro mult_right_mono) simp_all
  ultimately have p: "\<bar>p - t\<bar> \<le> eps + eta"
    by simp
  define a where "a = fl (1 - p)"
  have "\<bar>a - (1 - p)\<bar> \<le> \<bar>1 - p\<bar> * eps + eta"
    unfolding a_def eps_def eta_def by (rule fl_error)
  moreover from p t eps eta have "\<bar>1 - p\<bar> \<le> 2"
    by linarith
  then have "\<bar>1 - p\<bar> * eps \<le> 2 * eps"
    using eps by (intro mult_right_mono) simp_all
  ultimately have "\<bar>a - (1 - p)\<bar> \<le> 2 * eps + eta"
    by simp
  with p eta have a: "\<bar>a - (1 - t)\<bar> \<le> 4 * eps"
    by linarith
  define q where "q = fl (255 - L)"
  have "\<bar>q - (255 - L)\<bar> \<le> \<bar>255 - L\<bar> * eps + eta"
    unfolding q_def eps_def eta_def by (rule fl_error)
  moreover from assms eps have "\<bar>255 - L\<bar> * eps \<le> 255 * eps"
    by (intro mult_right_mono) simp_all
  ultimately have q: "\<bar>q - (255 - L)\<bar> \<le> 255 * eps + eta"
    by simp
  define b where "b = fl (q / 255)"
  have "\<bar>b - q / 255\<bar> \<le> \<bar>q / 255\<bar> * eps + eta"
    unfolding b_def eps_def eta_def by (rule fl_error)
  moreover from q assms eps eta have "\<bar>q / 255\<bar> \<le> 2"
    by simp
  then have "\<bar>q / 255\<bar> * eps \<le> 2 * eps"
    using eps by (intro mult_right_mono) simp_all
  ultimately have "\<bar>b - q / 255\<bar> \<le> 2 * eps + eta"
    by simp
  moreover from q have "\<bar>q / 255 - (1 - t)\<bar> \<le> eps + eta / 255"
    unfolding t_def by (simp add: field_simps)
  ultimately have b: "\<bar>b - (1 - t)\<bar> \<le> 4 * eps"
    using eta by linarith
  from a show "\<bar>fsub 1 (fdiv L 255) - (1 - L / 255)\<bar> \<le> 4 * pow2 (- 53)"
    by (simp add: fsub_def fdiv_def a_def p_def t_def eps_def)
  from b show "\<bar>fdiv (fsub 255 L) 255 - (1 - L / 255)\<bar> \<le> 4 * pow2 (- 53)"
    by (simp add: fsub_def fdiv_def b_def q_def t_def eps_def)
qed


lemma luminanceIndex_inverted_close:
  assumes "0 \<le> L" and "L \<le> 255" and "cs \<noteq> []" and "length cs \<le> 2 ^ 32"
  shows "\<bar>luminanceIndex L cs True - luminanceIndex (fsub 255 L) cs False\<bar> \<le> 1"
proof -
  define eps where "eps = pow2 (- 53)"
  define eta where "eta = pow2 (- 1075)"
  have eps: "0 < eps" "eps = 1 / 2 ^ 53"
    by (simp_all add: eps_def pow2_def)
  have eta: "0 < eta" "eta \<le> 1 / 2 ^ 53"
    by (simp_all add: eta_def pow2_def)
  define n :: rat where "n = of_int (int (length cs) - 1)"
  from assms(3) have "1 \<le> length cs"
    by (cases cs) simp_all
  with assms(4) have n: "0 \<le> n" "n \<le> 2 ^ 32"
    unfolding n_def by (simp_all add: of_nat_diff)
  define k where "k = n * eps"
  from n eps have "k \<le> 2 ^ 32 * eps"
    unfolding k_def by (intro mult_right_mono) simp_all
  also have "2 ^ 32 * eps = 2 ^ 32 / 2 ^ 53"
    by (simp only: eps(2) times_divide_eq_right mult_1_right)
  finally have k2: "k \<le> 2 ^ 32 / 2 ^ 53" .
  from n eps have k1: "0 \<le> k"
    unfolding k_def by simp
  note k = k1 k2
  define s where "s = 1 - L / 255"
  from assms(1,2) have s: "0 \<le> s" "s \<le> 1"
    by (simp_all add: s_def)
  define a where "a = fsub 1 (fdiv L 255)"
  define b where "b = fdiv (fsub 255 L) 255"
  from adjusted_luminance_close [OF assms(1,2)]
  have a: "\<bar>a - s\<bar> \<le> 4 * eps" and b: "\<bar>b - s\<bar> \<le> 4 * eps"
    by (simp_all add: a_def b_def s_def eps_def)
  have small: "eps \<le> 1 / 4"
    by (simp add: eps(2))
  from a b s eps(1) small have ab: "\<bar>a\<bar> \<le> 2" "\<bar>b\<bar> \<le> 2" "\<bar>a - b\<bar> \<le> 8 * eps"
    by linarith+
  define A where "A = fmul a n"
  define B where "B = fmul b n"
  have "\<bar>A - a * n\<bar> \<le> \<bar>a * n\<bar> * eps + eta"
    unfolding A_def fmul_def eps_def eta_def by (rule fl_error)
  moreover have "\<bar>a * n\<bar> * eps = \<bar>a\<bar> * k"
    using n by (simp add: k_def abs_mult)
  moreover have "\<bar>a\<bar> * k \<le> 2 * k"
    using ab(1) k(1) by (rule mult_right_mono)
  ultimately have A: "\<bar>A - a * n\<bar> \<le> 2 * k + eta"
    by simp
  have "\<bar>B - b * n\<bar> \<le> \<bar>b * n\<bar> * eps + eta"
    unfolding B_def fmul_def eps_def eta_def by (rule fl_error)
  moreover have "\<bar>b * n\<bar> * eps = \<bar>b\<bar> * k"
    using n by (simp add: k_def abs_mult)
  moreover have "\<bar>b\<bar> * k \<le> 2 * k"
    using ab(2) k(1) by (rule mult_right_mono)
  ultimately have B: "\<bar>B - b * n\<bar> \<le> 2 * k + eta"
    by simp
  have "\<bar>a * n - b * n\<bar> = \<bar>a - b\<bar> * n"
    using n by (simp add: abs_mult left_diff_distrib [symmetric])
  also have "\<dots> \<le> 8 * eps * n"
    using ab(3) n(1) by (rule mult_right_mono)
  finally have mid: "\<bar>a * n - b * n\<bar> \<le> 8 * k"
    by (simp add: k_def mult_ac)
  from A B mid have "\<bar>A - B\<bar> \<le> 12 * k + 2 * eta"
    by linarith
  also from k eta have "\<dots> < 1"
    by simp
  finally have "\<bar>\<lfloor>A\<rfloor> - \<lfloor>B\<rfloor>\<bar> \<le> 1"
    by (rule floor_close)
  then have "\<bar>max 0 (min (int (length cs) - 1) \<lfloor>A\<rfloor>) -
             max 0 (min (int (length cs) - 1) \<lfloor>B\<rfloor>)\<bar> \<le> 1"
    by linarith
  then show ?thesis
    by (simp add: luminanceIndex_def Let_def A_def B_def a_def b_def n_def)
qed

lemma round_half_even_of_int: "round_half_even (of_int z) = z"
  by (simp add: round_half_even_def Let_def)

lemma fl_of_int:
  assumes "0 \<le> k" and "k < 2 ^ 53"
  shows "fl (of_int k) = of_int k"
proof (cases "k = 0")
  case True
  then show ?thesis
    by (simp add: fl_def)
next
  case False
  with assms(1) have kpos: "0 < k"
    by simp
  from bit_length_bounds [OF kpos] have lo: "2 ^ (bit_length k - 1) \<le> k"
    by simp
  from lo assms(2) have "(2::int) ^ (bit_length k - 1) < 2 ^ 53"
    by (rule le_less_trans)
  then have "bit_length k - 1 < 53"
    by (rule power_less_imp_less_exp [rotated]) simp
  moreover from kpos have blpos: "0 < bit_length k"
    by (subst bit_length.simps) simp
  ultimately have bl: "bit_length k \<le> 53"
    by simp
  define d where "d = 53 - bit_length k"
  have m: "\<bar>rat_of_int k\<bar> = of_int k" "sgn (rat_of_int k) = 1"
    using kpos by simp_all
  have bin: "binade (of_int k) = int (bit_length k) - 1"
    using kpos by (simp add: binade_def)
  have e: "max (int (bit_length k) - 1) (- 1022) = int (bit_length k) - 1"
    by simp
  have u: "pow2 (int (bit_length k) - 53) = 1 / 2 ^ d"
  proof (cases "bit_length k = 53")
    case True
    then show ?thesis by (simp add: pow2_def d_def)
  next
    case False
    with bl have "bit_length k < 53" by simp
    then have "nat (53 - int (bit_length k)) = d"
      by (simp add: d_def nat_diff_distrib')
    with \<open>bit_length k < 53\<close> show ?thesis
      by (simp add: pow2_def algebra_simps)
  qed
  have q: "rat_of_int k / (1 / 2 ^ d) = of_int (k * 2 ^ d)"
    by simp
  have "fl (of_int k) = of_int (round_half_even (of_int k / (1 / 2 ^ d))) * (1 / 2 ^ d)"
    using kpos by (simp add: fl_def Let_def m bin e u del: of_int_mult)
  also have "\<dots> = of_int (k * 2 ^ d) * (1 / 2 ^ d)"
    by (simp only: q round_half_even_of_int)
  also have "\<dots> = of_int k"
    by simp
  finally show ?thesis .
qed


lemma floor_fdiv_range:
  assumes "0 \<le> r" and "r \<le> 255 * int n" and "0 < n"
  shows "0 \<le> \<lfloor>fdiv (of_int r) (of_nat n)\<rfloor> \<and> \<lfloor>fdiv (of_int r) (of_nat n)\<rfloor> \<le> 255"
proof -
  define q :: rat where "q = of_int r / of_nat n"
  from assms have q: "0 \<le> q" "q \<le> 255"
    unfolding q_def by (simp_all add: field_simps)
  have eps: "0 < pow2 (- 53)" "pow2 (- 53) \<le> 1 / 1024" "0 < pow2 (- 1075)" "pow2 (- 1075) \<le> 1 / 1024"
    by (simp_all add: pow2_def)
  have "\<bar>fl q - q\<bar> \<le> \<bar>q\<bar> * pow2 (- 53) + pow2 (- 1075)"
    by (rule fl_error)
  moreover from q eps(1) have "\<bar>q\<bar> * pow2 (- 53) \<le> 255 * pow2 (- 53)"
    by (intro mult_right_mono) simp_all
  ultimately have "fl q < 256"
    using q eps by linarith
  then have "\<lfloor>fl q\<rfloor> \<le> 255"
    by (simp add: floor_le_iff)
  moreover from q(1) have "0 \<le> \<lfloor>fl q\<rfloor>"
    by (simp add: fl_nonneg)
  ultimately show ?thesis
    by (simp add: fdiv_def q_def)
qed

lemma floor_fdiv_div:
  assumes "0 \<le> r" and "r \<le> 255 * int n" and "0 < n" and "n \<le> 2 ^ 32"
  shows "\<lfloor>fdiv (of_int r) (of_nat n)\<rfloor> = r div int n"
proof -
  define k where "k = r div int n"
  define j where "j = r mod int n"
  have r: "r = k * int n + j"
    by (simp add: k_def j_def)
  from assms(3) have j: "0 \<le> j" "j < int n"
    by (simp_all add: j_def)
  from assms(1,3) have k0: "0 \<le> k"
    by (simp add: k_def pos_imp_zdiv_nonneg_iff)
  from assms(2,3) have "r div int n \<le> (255 * int n) div int n"
    by (intro zdiv_mono1) simp_all
  with assms(3) have k255: "k \<le> 255"
    by (simp add: k_def)
  define q :: rat where "q = of_int r / of_nat n"
  have npos: "(0::rat) < of_nat n"
    using assms(3) by simp
  have qk: "q = of_int k + of_int j / of_nat n"
    unfolding q_def using npos by (subst r) (simp add: field_simps)
  show ?thesis
  proof (cases "j = 0")
    case True
    then have "q = of_int k"
      by (simp add: qk)
    moreover from k0 k255 have "fl (of_int k) = of_int k"
      by (intro fl_of_int) simp_all
    ultimately show ?thesis
      by (simp add: fdiv_def q_def [symmetric] k_def)
  next
    case False
    with j have j1: "1 \<le> j" "j \<le> int n - 1"
      by simp_all
    define c :: rat where "c = 1 / of_nat n"
    have cpos: "0 < c"
      unfolding c_def using npos by simp
    from assms(4) have "(of_nat n :: rat) \<le> 2 ^ 32"
      by (metis of_nat_le_iff of_nat_numeral of_nat_power)
    with npos have c32: "1 / 2 ^ 32 \<le> c"
      unfolding c_def by (intro divide_left_mono) simp_all
    have jc: "of_int j / of_nat n = of_int j * c"
      by (simp add: c_def)
    from j1 cpos have "1 * c \<le> of_int j * c"
      by (intro mult_right_mono) simp_all
    moreover from j1 cpos have "of_int j * c \<le> of_int (int n - 1) * c"
      by (intro mult_right_mono) simp_all
    moreover have "of_int (int n - 1) * c = 1 - c"
      unfolding c_def using npos by (simp add: field_simps)
    ultimately have frac: "c \<le> of_int j / of_nat n" "of_int j / of_nat n \<le> 1 - c"
      by (simp_all add: jc)
    from frac qk k0 k255 cpos have q: "0 \<le> q" "q \<le> 256"
      by simp_all
    have eps: "0 < pow2 (- 53)" "256 * pow2 (- 53) + pow2 (- 1075) < 1 / 2 ^ 32"
      by (simp_all add: pow2_def)
    have "\<bar>fl q - q\<bar> \<le> \<bar>q\<bar> * pow2 (- 53) + pow2 (- 1075)"
      by (rule fl_error)
    moreover from q eps(1) have "\<bar>q\<bar> * pow2 (- 53) \<le> 256 * pow2 (- 53)"
      by (intro mult_right_mono) simp_all
    ultimately have "\<bar>fl q - q\<bar> < c"
      using eps(2) c32 by linarith
    with frac qk have "of_int k \<le> fl q" "fl q < of_int k + 1"
      by linarith+
    then have "\<lfloor>fl q\<rfloor> = k"
      by (intro floor_unique) simp_all
    then show ?thesis
      by (simp add: fdiv_def q_def k_def)
  qed
qed

lemma fl_of_nat:
  assumes "n \<le> 2 ^ 50"
  shows "fl (of_nat n) = of_nat n"
proof -
  from assms have "int n < 2 ^ 53"
    by (simp add: order_le_less_trans)
  then have "fl (of_int (int n)) = of_int (int n)"
    by (intro fl_of_int) simp_all
  then show ?thesis
    by simp
qed

lemma fl_scaled_error:
  assumes "\<bar>y - x\<bar> \<le> \<bar>x\<bar> * d + m" and "0 \<le> d" and "0 \<le> m"
  shows "\<bar>fl (y * c) - x * c\<bar> \<le>
           \<bar>x * c\<bar> * (d + pow2 (- 53) + d * pow2 (- 53)) + (m * \<bar>c\<bar> * (1 + pow2 (- 53)) + pow2 (- 1075))"
proof -
  define eps where "eps = pow2 (- 53)"
  define eta where "eta = pow2 (- 1075)"
  have eps: "0 \<le> eps"
    by (simp add: eps_def pow2_def)
  have r: "\<bar>fl (y * c) - y * c\<bar> \<le> \<bar>y * c\<bar> * eps + eta"
    unfolding eps_def eta_def by (rule fl_error)
  have "\<bar>y * c - x * c\<bar> = \<bar>y - x\<bar> * \<bar>c\<bar>"
    by (simp add: abs_mult left_diff_distrib [symmetric])
  also have "\<dots> \<le> (\<bar>x\<bar> * d + m) * \<bar>c\<bar>"
    using assms(1) by (intro mult_right_mono) simp_all
  finally have s: "\<bar>y * c - x * c\<bar> \<le> \<bar>x * c\<bar> * d + m * \<bar>c\<bar>"
    by (simp add: abs_mult algebra_simps)
  then have "\<bar>y * c\<bar> \<le> \<bar>x * c\<bar> + (\<bar>x * c\<bar> * d + m * \<bar>c\<bar>)"
    by linarith
  then have "\<bar>y * c\<bar> * eps \<le> (\<bar>x * c\<bar> + (\<bar>x * c\<bar> * d + m * \<bar>c\<bar>)) * eps"
    using eps by (rule mult_right_mono)
  with r s have "\<bar>fl (y * c) - x * c\<bar> \<le>
      \<bar>x * c\<bar> * d + m * \<bar>c\<bar> + (\<bar>x * c\<bar> + (\<bar>x * c\<bar> * d + m * \<bar>c\<bar>)) * eps + eta"
    by linarith
  also have "\<dots> = \<bar>x * c\<bar> * (d + eps + d * eps) + (m * \<bar>c\<bar> * (1 + eps) + eta)"
    by (simp add: algebra_simps)
  finally show ?thesis
    by (simp add: eps_def eta_def)
qed

lemma floor_within:
  fixes x y d :: rat
  assumes "\<bar>y - x\<bar> \<le> d" and "\<lfloor>x - d\<rfloor> = \<lfloor>x + d\<rfloor>"
  shows "\<lfloor>y\<rfloor> = \<lfloor>x\<rfloor>"
proof -
  from assms(1) have "x - d \<le> y" "y \<le> x + d" "x - d \<le> x" "x \<le> x + d"
    by linarith+
  then have "\<lfloor>x - d\<rfloor> \<le> \<lfloor>y\<rfloor>" "\<lfloor>y\<rfloor> \<le> \<lfloor>x + d\<rfloor>" "\<lfloor>x - d\<rfloor> \<le> \<lfloor>x\<rfloor>" "\<lfloor>x\<rfloor> \<le> \<lfloor>x + d\<rfloor>"
    by (simp_all add: floor_mono)
  with assms(2) show ?thesis
    by linarith
qed

section \<open>Dimensions\<close>

text \<open>
  The three roundings of \<open>sourceHeight / sourceWidth * targetWidth * aspectRatio\<close> keep
  the product finite and within \<open>tolerance\<close> of its exact value, for dimensions that
  are integers of binary64 and a product of at most \<open>2^50\<close>.
\<close>

lemma height_product_close:
  assumes w: "0 < sourceWidth" "sourceWidth \<le> 2 ^ 53"
    and h: "0 < sourceHeight" "sourceHeight \<le> 2 ^ 53"
    and t: "targetWidth \<noteq> 0" "\<bar>targetWidth\<bar> \<le> 2 ^ 53"
    and a: "0 < ar"
    and e: "\<bar>height_product sourceWidth sourceHeight targetWidth ar\<bar> \<le> 2 ^ 50"
  shows "isFinite (fdiv (of_int sourceHeight) (of_int sourceWidth)) \<and>
         isFinite (fmul (fdiv (of_int sourceHeight) (of_int sourceWidth)) (of_int targetWidth)) \<and>
         isFinite (fmul (fmul (fdiv (of_int sourceHeight) (of_int sourceWidth))
                      (of_int targetWidth)) ar) \<and>
         \<bar>fmul (fmul (fdiv (of_int sourceHeight) (of_int sourceWidth)) (of_int targetWidth)) ar -
           height_product sourceWidth sourceHeight targetWidth ar\<bar>
           \<le> tolerance (height_product sourceWidth sourceHeight targetWidth ar)"
proof -
  define eps where "eps = pow2 (- 53)"
  define eta where "eta = pow2 (- 1075)"
  define r :: rat where "r = of_int sourceHeight / of_int sourceWidth"
  define T :: rat where "T = of_int targetWidth"
  define E where "E = r * T * ar"
  define q where "q = fl r"
  define p1 where "p1 = fl (q * T)"
  define p2 where "p2 = fl (p1 * ar)"
  have E: "height_product sourceWidth sourceHeight targetWidth ar = E"
    by (simp add: height_product_def E_def r_def T_def)
  have eps: "0 \<le> eps" "1 + eps \<le> 2" "eps \<le> 1"
    by (simp_all add: eps_def pow2_def)
  have eta: "0 \<le> eta" "eta \<le> 1"
    by (simp_all add: eta_def pow2_def)
  have d4: "eps + eps + eps * eps + eps + (eps + eps + eps * eps) * eps \<le> 1 / 2 ^ 51"
    by (simp add: eps_def pow2_def)
  have eta_small: "eta * 2 ^ 106 + eta \<le> 1 / 2 ^ 900"
    by (simp add: eta_def pow2_def)
  have wr: "(0::rat) < of_int sourceWidth" "rat_of_int sourceWidth \<le> 2 ^ 53"
    using w by (simp_all add: of_int_le_numeral_power_cancel_iff)
  have hr: "(1::rat) \<le> of_int sourceHeight" "rat_of_int sourceHeight \<le> 2 ^ 53"
    using h by (simp_all add: of_int_le_numeral_power_cancel_iff)
  have w1: "(1::rat) \<le> of_int sourceWidth"
    using w(1) by simp
  have r0: "0 < r"
    unfolding r_def using wr hr by simp
  have "r \<le> of_int sourceHeight"
    unfolding r_def using wr w1 hr by (simp add: field_simps mult_le_cancel_left1)
  with hr have r_hi: "r \<le> 2 ^ 53"
    by linarith
  have "1 / 2 ^ 53 \<le> 1 / rat_of_int sourceWidth"
    using wr by (intro divide_left_mono) simp_all
  also have "\<dots> \<le> r"
    unfolding r_def using wr hr by (simp add: field_simps)
  finally have r_lo: "1 / 2 ^ 53 \<le> r" .
  have T1: "1 \<le> \<bar>T\<bar>"
  proof -
    from t(1) have "1 \<le> \<bar>targetWidth\<bar>"
      by simp
    then have "(1::rat) \<le> of_int \<bar>targetWidth\<bar>"
      by (metis of_int_1 of_int_le_iff)
    then show ?thesis
      by (simp add: T_def)
  qed
  have T_hi: "\<bar>T\<bar> \<le> 2 ^ 53"
  proof -
    from t(2) have "rat_of_int \<bar>targetWidth\<bar> \<le> 2 ^ 53"
      by (simp add: of_int_le_numeral_power_cancel_iff)
    then show ?thesis
      by (simp add: T_def)
  qed
  define A where "A = \<bar>T\<bar> * ar"
  have absE: "\<bar>E\<bar> = r * A"
    using r0 a by (simp add: E_def A_def abs_mult)
  from e have E50: "\<bar>E\<bar> \<le> 2 ^ 50"
    by (simp add: E)
  have A0: "0 \<le> A"
    using a by (simp add: A_def)
  have "A = 2 ^ 53 * (1 / 2 ^ 53 * A)"
    by simp
  also have "1 / 2 ^ 53 * A \<le> r * A"
    using r_lo A0 by (rule mult_right_mono)
  then have "2 ^ 53 * (1 / 2 ^ 53 * A) \<le> 2 ^ 53 * (r * A)"
    by (intro mult_left_mono) simp_all
  also have "\<dots> \<le> 2 ^ 53 * 2 ^ 50"
    using E50 by (intro mult_left_mono) (simp_all add: absE)
  finally have A_hi: "A \<le> 2 ^ 103"
    by simp
  have "1 * ar \<le> \<bar>T\<bar> * ar"
    using T1 a by (intro mult_right_mono) simp_all
  with A_hi have ar_hi: "ar \<le> 2 ^ 103"
    by (simp add: A_def)
  have q: "\<bar>q - r\<bar> \<le> \<bar>r\<bar> * eps + eta"
    unfolding q_def eps_def eta_def by (rule fl_error)
  have p1: "\<bar>p1 - r * T\<bar> \<le> \<bar>r * T\<bar> * (eps + eps + eps * eps) + (eta * \<bar>T\<bar> * (1 + eps) + eta)"
    using fl_scaled_error [OF q eps(1) eta(1), of T]
    by (simp add: p1_def eps_def eta_def)
  have d0: "0 \<le> eps + eps + eps * eps"
    using eps(1) by simp
  have m0: "0 \<le> eta * \<bar>T\<bar> * (1 + eps) + eta"
    using eps(1) eta(1) by simp
  have p2: "\<bar>p2 - E\<bar> \<le> \<bar>E\<bar> * (eps + eps + eps * eps + eps + (eps + eps + eps * eps) * eps) +
      ((eta * \<bar>T\<bar> * (1 + eps) + eta) * \<bar>ar\<bar> * (1 + eps) + eta)"
    using fl_scaled_error [OF p1 d0 m0, of ar]
    by (simp add: p2_def E_def eps_def eta_def)
  have rel: "\<bar>E\<bar> * (eps + eps + eps * eps + eps + (eps + eps + eps * eps) * eps) \<le> \<bar>E\<bar> * (1 / 2 ^ 51)"
    using d4 by (intro mult_left_mono) simp_all
  have "A * (1 + eps) \<le> 2 ^ 103 * 2"
    using A_hi eps(2) A0 eps(1) by (intro mult_mono) simp_all
  with ar_hi have "A * (1 + eps) + ar \<le> 2 ^ 105"
    by simp
  moreover have "0 \<le> A * (1 + eps) + ar"
    using A0 eps(1) a by simp
  ultimately have "(A * (1 + eps) + ar) * (1 + eps) \<le> 2 ^ 105 * 2"
    using eps(1,2) by (intro mult_mono) simp_all
  then have "(A * (1 + eps) + ar) * (1 + eps) \<le> 2 ^ 106"
    by simp
  then have "eta * ((A * (1 + eps) + ar) * (1 + eps)) \<le> eta * 2 ^ 106"
    using eta(1) by (rule mult_left_mono)
  moreover have "(eta * \<bar>T\<bar> * (1 + eps) + eta) * \<bar>ar\<bar> * (1 + eps) =
      eta * ((A * (1 + eps) + ar) * (1 + eps))"
    using a by (simp add: A_def algebra_simps)
  ultimately have abs_part: "(eta * \<bar>T\<bar> * (1 + eps) + eta) * \<bar>ar\<bar> * (1 + eps) + eta \<le> 1 / 2 ^ 900"
    using eta_small by linarith
  from p2 rel abs_part have close: "\<bar>p2 - E\<bar> \<le> tolerance E"
    unfolding tolerance_def by simp
  have tol1: "tolerance E \<le> 1"
    unfolding tolerance_def using E50 by simp
  from close tol1 E50 have "\<bar>p2\<bar> \<le> 2 ^ 50 + 1"
    by linarith
  then have f3: "isFinite p2"
    by (simp add: isFinite_def)
  from q r0 r_hi eps(3) eta(2) have "\<bar>q\<bar> \<le> 2 ^ 53 + (r * eps + 1)"
    by simp
  moreover from r_hi r0 eps have "r * eps \<le> 2 ^ 53 * 1"
    by (intro mult_mono) simp_all
  ultimately have f1: "isFinite q"
    by (simp add: isFinite_def)
  have rT: "\<bar>r * T\<bar> \<le> 2 ^ 53 * 2 ^ 53"
    unfolding abs_mult using r_hi T_hi r0 by (intro mult_mono) simp_all
  have "eps + eps + eps * eps \<le> 3"
    by (simp add: eps_def pow2_def)
  then have "\<bar>r * T\<bar> * (eps + eps + eps * eps) \<le> 2 ^ 53 * 2 ^ 53 * 3"
    using rT d0 by (intro mult_mono) simp_all
  moreover have "eta * \<bar>T\<bar> * (1 + eps) \<le> 1 * 2 ^ 53 * 2"
    using eta T_hi eps by (intro mult_mono) simp_all
  ultimately have "\<bar>p1\<bar> \<le> 2 ^ 53 * 2 ^ 53 + 2 ^ 53 * 2 ^ 53 * 3 + 1 * 2 ^ 53 * 2 + 1"
    using p1 rT eta(2) by linarith
  then have f2: "isFinite p1"
    by (simp add: isFinite_def)
  from f1 f2 f3 close show ?thesis
    by (simp add: fdiv_def fmul_def E q_def p1_def p2_def r_def T_def)
qed

lemma fl_aspect: "fl (11 / 20) = 2476979795053773 / 4503599627370496"
  by code_simp

text \<open>
  Claim C4, as stated: for a source of positive width and height, a target width other
  than 0 and a positive aspect ratio, \<open>calculateDimensions\<close> returns the target width and
  the height \<open>floor(sourceHeight / sourceWidth * targetWidth * aspectRatio)\<close>. The source
  rounds the quotient and each product: for a source of 49 by 1 at target width 49 and
  aspect ratio 1 the product is below 1 and the height is 0, not 1; for 55 by 29 at
  target width 100 and aspect ratio 0.55 the height is 28, not 29; and for an aspect
  ratio of \<open>2^1023\<close> the product overflows and the height is Infinity.
\<close>

theorem calculateDimensions_target_width_counterexample:
  "calculateDimensions 49 1 (Some 49) None 1 \<noteq> Some (49, \<lfloor>height_product 49 1 49 1\<rfloor>) \<and>
   calculateDimensions 55 29 (Some 100) None (fl (11 / 20)) \<noteq>
     Some (100, \<lfloor>height_product 55 29 100 (fl (11 / 20))\<rfloor>) \<and>
   calculateDimensions 640 480 (Some 80) None (2 ^ 1023) = None"
proof (intro conjI)
  show "calculateDimensions 49 1 (Some 49) None 1 \<noteq> Some (49, \<lfloor>height_product 49 1 49 1\<rfloor>)"
    by code_simp
  show "calculateDimensions 55 29 (Some 100) None (fl (11 / 20)) \<noteq>
     Some (100, \<lfloor>height_product 55 29 100 (fl (11 / 20))\<rfloor>)"
    by code_simp
  have q: "fdiv 480 640 = 3 / 4" and s: "fmul (3 / 4) 80 = 60"
    by code_simp+
  define X :: rat where "X = 60 * 2 ^ 1023"
  have "\<bar>fl X - X\<bar> \<le> \<bar>X\<bar> * pow2 (- 53) + pow2 (- 1075)"
    by (rule fl_error)
  moreover have "\<bar>X\<bar> * pow2 (- 53) + pow2 (- 1075) \<le> 2 ^ 1024"
    by (simp add: X_def pow2_def)
  moreover have "2 ^ 1024 + 2 ^ 1024 \<le> X"
    by (simp add: X_def)
  ultimately have "2 ^ 1024 \<le> \<bar>fl X\<bar>"
    by linarith
  then have "\<not> isFinite (fmul 60 (2 ^ 1023))"
    by (simp add: isFinite_def fmul_def X_def)
  then show "calculateDimensions 640 480 (Some 80) None (2 ^ 1023) = None"
    by (simp add: calculateDimensions_def truthy_def Let_def q s)
qed

text \<open>
  Claim C4, amended: for a source of positive width and height, a target width other
  than 0 (all three integers of magnitude at most \<open>2^53\<close>), a positive aspect ratio and
  a product \<open>sourceHeight / sourceWidth * targetWidth * aspectRatio\<close> of magnitude at most
  \<open>2^50\<close>, \<open>calculateDimensions\<close> returns the target width and a height that differs from
  the floor of the product by at most one, and that is the floor of the product whenever
  no integer lies within \<open>tolerance\<close> of the product. For 640 by 480, target width 80
  and aspect ratio 0.55 the result is 80 by 33.
\<close>

theorem calculateDimensions_target_width:
  "(0 < sourceWidth \<and> sourceWidth \<le> 2 ^ 53 \<and> 0 < sourceHeight \<and> sourceHeight \<le> 2 ^ 53 \<and>
    targetWidth \<noteq> 0 \<and> \<bar>targetWidth\<bar> \<le> 2 ^ 53 \<and> 0 < ar \<and>
    \<bar>height_product sourceWidth sourceHeight targetWidth ar\<bar> \<le> 2 ^ 50 \<longrightarrow>
    (\<exists>height.
       calculateDimensions sourceWidth sourceHeight (Some targetWidth) targetHeight ar =
         Some (targetWidth, height) \<and>
       \<bar>height - \<lfloor>height_product sourceWidth sourceHeight targetWidth ar\<rfloor>\<bar> \<le> 1 \<and>
       (\<lfloor>height_product sourceWidth sourceHeight targetWidth ar -
           tolerance (height_product sourceWidth sourceHeight targetWidth ar)\<rfloor> =
        \<lfloor>height_product sourceWidth sourceHeight targetWidth ar +
           tolerance (height_product sourceWidth sourceHeight targetWidth ar)\<rfloor> \<longrightarrow>
        height = \<lfloor>height_product sourceWidth sourceHeight targetWidth ar\<rfloor>)))
   \<and> calculateDimensions 640 480 (Some 80) None (fl (11 / 20)) = Some (80, 33)"
proof (intro conjI impI)
  assume hyps: "0 < sourceWidth \<and> sourceWidth \<le> 2 ^ 53 \<and> 0 < sourceHeight \<and>
    sourceHeight \<le> 2 ^ 53 \<and> targetWidth \<noteq> 0 \<and> \<bar>targetWidth\<bar> \<le> 2 ^ 53 \<and> 0 < ar \<and>
    \<bar>height_product sourceWidth sourceHeight targetWidth ar\<bar> \<le> 2 ^ 50"
  define E where "E = height_product sourceWidth sourceHeight targetWidth ar"
  define p where "p = fmul (fmul (fdiv (of_int sourceHeight) (of_int sourceWidth))
                               (of_int targetWidth)) ar"
  from hyps have h: "0 < sourceWidth" "sourceWidth \<le> 2 ^ 53" "0 < sourceHeight"
      "sourceHeight \<le> 2 ^ 53" "targetWidth \<noteq> 0" "\<bar>targetWidth\<bar> \<le> 2 ^ 53" "0 < ar"
      "\<bar>height_product sourceWidth sourceHeight targetWidth ar\<bar> \<le> 2 ^ 50"
    by blast+
  from height_product_close [OF h]
  have fin: "isFinite (fdiv (of_int sourceHeight) (of_int sourceWidth))"
      "isFinite (fmul (fdiv (of_int sourceHeight) (of_int sourceWidth)) (of_int targetWidth))"
      "isFinite p"
    and close: "\<bar>p - E\<bar> \<le> tolerance E"
    unfolding p_def E_def by blast+
  from h(8) have "tolerance E \<le> 2 ^ 50 / 2 ^ 51 + 1 / 2 ^ 900"
    unfolding tolerance_def E_def by (simp add: divide_right_mono)
  also have "\<dots> < (1::rat)"
    by simp
  finally have "\<bar>p - E\<bar> < 1"
    using close by simp
  then have near: "\<bar>\<lfloor>p\<rfloor> - \<lfloor>E\<rfloor>\<bar> \<le> 1"
    by (rule floor_close)
  have exact: "\<lfloor>E - tolerance E\<rfloor> = \<lfloor>E + tolerance E\<rfloor> \<longrightarrow> \<lfloor>p\<rfloor> = \<lfloor>E\<rfloor>"
    using close by (auto intro: floor_within)
  from h(1,5) fin have "calculateDimensions sourceWidth sourceHeight (Some targetWidth) targetHeight ar =
      Some (targetWidth, \<lfloor>p\<rfloor>)"
    by (simp add: calculateDimensions_def truthy_def Let_def p_def)
  with near exact show "\<exists>height.
       calculateDimensions sourceWidth sourceHeight (Some targetWidth) targetHeight ar =
         Some (targetWidth, height) \<and>
       \<bar>height - \<lfloor>height_product sourceWidth sourceHeight targetWidth ar\<rfloor>\<bar> \<le> 1 \<and>
       (\<lfloor>height_product sourceWidth sourceHeight targetWidth ar -
           tolerance (height_product sourceWidth sourceHeight targetWidth ar)\<rfloor> =
        \<lfloor>height_product sourceWidth sourceHeight targetWidth ar +
           tolerance (height_product sourceWidth sourceHeight targetWidth ar)\<rfloor> \<longrightarrow>
        height = \<lfloor>height_product sourceWidth sourceHeight targetWidth ar\<rfloor>)"
    unfolding E_def by blast
next
  show "calculateDimensions 640 480 (Some 80) None (fl (11 / 20)) = Some (80, 33)"
    by code_simp
qed

theorem calculateDimensions_target_width_witness:
  "(0::int) < 640 \<and> (640::int) \<le> 2 ^ 53 \<and> (0::int) < 480 \<and> (480::int) \<le> 2 ^ 53 \<and>
   (100::int) \<noteq> 0 \<and> \<bar>100::int\<bar> \<le> 2 ^ 53 \<and> 0 < fl (11 / 20) \<and>
   \<bar>height_product 640 480 100 (fl (11 / 20))\<bar> \<le> 2 ^ 50 \<and>
   \<lfloor>height_product 640 480 100 (fl (11 / 20))\<rfloor> = 41 \<and>
   calculateDimensions 640 480 (Some 100) (Some 7) (fl (11 / 20)) = Some (100, 41)"
proof -
  have a: "0 < fl (11 / 20)"
    by (simp add: fl_aspect)
  have e: "\<bar>height_product 640 480 100 (fl (11 / 20))\<bar> \<le> 2 ^ 50"
    by (simp add: height_product_def fl_aspect)
  have lo: "\<lfloor>height_product 640 480 100 (fl (11 / 20)) -
             tolerance (height_product 640 480 100 (fl (11 / 20)))\<rfloor> = 41"
    and hi: "\<lfloor>height_product 640 480 100 (fl (11 / 20)) +
             tolerance (height_product 640 480 100 (fl (11 / 20)))\<rfloor> = 41"
    and mid: "\<lfloor>height_product 640 480 100 (fl (11 / 20))\<rfloor> = 41"
    by (simp_all add: height_product_def tolerance_def fl_aspect floor_eq_iff)
  have hyps: "(0::int) < 640 \<and> (640::int) \<le> 2 ^ 53 \<and> (0::int) < 480 \<and> (480::int) \<le> 2 ^ 53 \<and>
      (100::int) \<noteq> 0 \<and> \<bar>100::int\<bar> \<le> 2 ^ 53 \<and> 0 < fl (11 / 20) \<and>
      \<bar>height_product 640 480 100 (fl (11 / 20))\<bar> \<le> 2 ^ 50"
    using a e by simp
  from calculateDimensions_target_width [of 640 480 100 "fl (11 / 20)" "Some 7"] hyps
  obtain height where
    c: "calculateDimensions 640 480 (Some 100) (Some 7) (fl (11 / 20)) = Some (100, height)"
    and x: "\<lfloor>height_product 640 480 100 (fl (11 / 20)) -
             tolerance (height_product 640 480 100 (fl (11 / 20)))\<rfloor> =
           \<lfloor>height_product 640 480 100 (fl (11 / 20)) +
             tolerance (height_product 640 480 100 (fl (11 / 20)))\<rfloor> \<longrightarrow>
           height = \<lfloor>height_product 640 480 100 (fl (11 / 20))\<rfloor>"
    by blast
  from x lo hi mid have "height = 41"
    by simp
  with c hyps mid show ?thesis
    by blast
qed

section \<open>Luminance to glyph\<close>

lemma clamped_index_in_range:
  "cs \<noteq> [] \<Longrightarrow> nat (max 0 (min (int (length cs) - 1) i)) < length cs"
  by (cases cs) auto

text \<open>
  The two roundings of \<open>L / 255 * (len - 1)\<close> keep the product within \<open>tolerance\<close> of
  its exact value.
\<close>

lemma index_product_close:
  assumes "length cs \<le> 2 ^ 32"
  shows "\<bar>fmul (fdiv L 255) (of_int (int (length cs) - 1)) - index_product L cs\<bar>
           \<le> tolerance (index_product L cs)"
proof -
  define eps where "eps = pow2 (- 53)"
  define eta where "eta = pow2 (- 1075)"
  define n :: rat where "n = of_int (int (length cs) - 1)"
  define x where "x = L / 255"
  have eps: "0 \<le> eps" "1 + eps \<le> 2"
    by (simp_all add: eps_def pow2_def)
  have eta: "0 \<le> eta"
    by (simp add: eta_def pow2_def)
  have d2: "eps + eps + eps * eps \<le> 1 / 2 ^ 51"
    by (simp add: eps_def pow2_def)
  have eta_small: "eta * 2 ^ 33 + eta \<le> 1 / 2 ^ 900"
    by (simp add: eta_def pow2_def)
  from assms have "int (length cs) - 1 \<le> 2 ^ 32"
    by simp
  then have "rat_of_int (int (length cs) - 1) \<le> 2 ^ 32"
    by (simp only: of_int_le_numeral_power_cancel_iff)
  moreover have "- 1 \<le> rat_of_int (int (length cs) - 1)"
    by simp
  moreover have "(1::rat) \<le> 2 ^ 32"
    by simp
  ultimately have n: "\<bar>n\<bar> \<le> 2 ^ 32"
    unfolding n_def by linarith
  have q: "\<bar>fl x - x\<bar> \<le> \<bar>x\<bar> * eps + eta"
    unfolding eps_def eta_def by (rule fl_error)
  have p: "\<bar>fl (fl x * n) - x * n\<bar> \<le>
      \<bar>x * n\<bar> * (eps + eps + eps * eps) + (eta * \<bar>n\<bar> * (1 + eps) + eta)"
    using fl_scaled_error [OF q eps(1) eta, of n] by (simp add: eps_def eta_def)
  have rel: "\<bar>x * n\<bar> * (eps + eps + eps * eps) \<le> \<bar>x * n\<bar> * (1 / 2 ^ 51)"
    using d2 by (intro mult_left_mono) simp_all
  have "\<bar>n\<bar> * (1 + eps) \<le> 2 ^ 32 * 2"
    using n eps by (intro mult_mono) simp_all
  then have "\<bar>n\<bar> * (1 + eps) \<le> 2 ^ 33"
    by simp
  then have "eta * (\<bar>n\<bar> * (1 + eps)) \<le> eta * 2 ^ 33"
    using eta by (rule mult_left_mono)
  moreover have "eta * \<bar>n\<bar> * (1 + eps) = eta * (\<bar>n\<bar> * (1 + eps))"
    by (rule mult.assoc)
  ultimately have "eta * \<bar>n\<bar> * (1 + eps) + eta \<le> 1 / 2 ^ 900"
    using eta_small by linarith
  with p rel have "\<bar>fl (fl x * n) - x * n\<bar> \<le> tolerance (x * n)"
    unfolding tolerance_def by simp
  then show ?thesis
    by (simp add: fmul_def fdiv_def index_product_def x_def n_def)
qed

lemma index_product_range:
  assumes "0 \<le> L" and "L \<le> 255" and "cs \<noteq> []" and "length cs \<le> 2 ^ 32"
  shows "\<bar>index_product L cs\<bar> \<le> 2 ^ 32"
proof -
  define n :: rat where "n = of_int (int (length cs) - 1)"
  from assms(3) have "1 \<le> length cs"
    by (cases cs) simp_all
  with assms(4) have n: "0 \<le> n" "n \<le> 2 ^ 32"
    unfolding n_def by (simp_all add: of_nat_diff)
  from assms(1,2) have x: "0 \<le> L / 255" "L / 255 \<le> 1"
    by simp_all
  from x n have "L / 255 * n \<le> 1 * 2 ^ 32"
    by (intro mult_mono) simp_all
  moreover from x n have "0 \<le> L / 255 * n"
    by simp
  ultimately show ?thesis
    by (simp add: index_product_def n_def)
qed

text \<open>
  Claim C5, as stated: for a charset that is not empty and a luminance \<open>L\<close> between 0 and
  255, the mapping without inversion returns the glyph at index
  \<open>floor(L / 255 * (len - 1))\<close>, clamped to \<open>[0, len - 1]\<close>. With the 52 letters as
  charset and luminance 155 the product \<open>155 / 255 * 51\<close> is 31, but the source rounds
  the quotient and the product, gets a number below 31 and returns the glyph at index 30.
\<close>

theorem luminanceToChar_non_inverted_counterexample:
  "luminanceToChar 155 letters False \<noteq> Some (letters ! nat (exact_index 155 letters))"
  by code_simp

text \<open>
  Claim C5, amended: for a charset that is not empty (and no longer than \<open>2^32\<close>, as
  every string is) and a luminance \<open>L\<close> between 0 and 255, the mapping without inversion
  returns the glyph at an index within the charset that differs from
  \<open>floor(L / 255 * (len - 1))\<close>, clamped to \<open>[0, len - 1]\<close>, by at most one, and that is
  equal to it whenever no integer lies within \<open>tolerance\<close> of the product. Luminance 0
  selects the first glyph and luminance 255 the last one, for every such charset; for
  three glyphs, luminance 0 selects index 0, luminance 128 index 1, luminance 255 index 2.
\<close>

theorem luminanceToChar_non_inverted:
  "(cs \<noteq> [] \<and> length cs \<le> 2 ^ 32 \<and> 0 \<le> L \<and> L \<le> 255 \<longrightarrow>
      (\<exists>index.
         luminanceToChar L cs False = Some (cs ! nat index) \<and>
         0 \<le> index \<and> index < int (length cs) \<and>
         \<bar>index - exact_index L cs\<bar> \<le> 1 \<and>
         (\<lfloor>index_product L cs - tolerance (index_product L cs)\<rfloor> =
          \<lfloor>index_product L cs + tolerance (index_product L cs)\<rfloor> \<longrightarrow>
          index = exact_index L cs)))
   \<and> (cs \<noteq> [] \<and> length cs \<le> 2 ^ 32 \<longrightarrow>
        luminanceToChar 0 cs False = Some (cs ! 0) \<and>
        luminanceToChar 255 cs False = Some (cs ! (length cs - 1)))
   \<and> (length cs = 3 \<longrightarrow>
        luminanceToChar 0 cs False = Some (cs ! 0) \<and>
        luminanceToChar 128 cs False = Some (cs ! 1) \<and>
        luminanceToChar 255 cs False = Some (cs ! 2))"
proof (intro conjI impI)
  assume hyps: "cs \<noteq> [] \<and> length cs \<le> 2 ^ 32 \<and> 0 \<le> L \<and> L \<le> 255"
  then have h: "cs \<noteq> []" "length cs \<le> 2 ^ 32" "0 \<le> L" "L \<le> 255"
    by blast+
  define E where "E = index_product L cs"
  define p where "p = fmul (fdiv L 255) (of_int (int (length cs) - 1))"
  define index where "index = luminanceIndex L cs False"
  have index: "index = max 0 (min (int (length cs) - 1) \<lfloor>p\<rfloor>)"
    by (simp add: index_def luminanceIndex_def Let_def p_def)
  from index_product_close [OF h(2)] have close: "\<bar>p - E\<bar> \<le> tolerance E"
    by (simp add: p_def E_def)
  from index_product_range [OF h(3,4,1,2)] have "tolerance E \<le> 2 ^ 32 / 2 ^ 51 + 1 / 2 ^ 900"
    unfolding tolerance_def E_def by (simp add: divide_right_mono)
  also have "\<dots> < (1::rat)"
    by simp
  finally have "\<bar>p - E\<bar> < 1"
    using close by simp
  then have "\<bar>\<lfloor>p\<rfloor> - \<lfloor>E\<rfloor>\<bar> \<le> 1"
    by (rule floor_close)
  then have near: "\<bar>index - exact_index L cs\<bar> \<le> 1"
    unfolding index exact_index_def E_def by linarith
  have exact: "\<lfloor>E - tolerance E\<rfloor> = \<lfloor>E + tolerance E\<rfloor> \<longrightarrow> index = exact_index L cs"
    using close unfolding index exact_index_def E_def by (auto dest: floor_within)
  have inside: "nat index < length cs"
    unfolding index using h(1) by (rule clamped_index_in_range)
  then have glyph: "luminanceToChar L cs False = Some (cs ! nat index)"
    by (simp add: luminanceToChar_def Let_def index_def)
  from h(1) have "1 \<le> int (length cs)"
    by (cases cs) simp_all
  then have range: "0 \<le> index" "index < int (length cs)"
    unfolding index by linarith+
  from glyph range near exact show "\<exists>index.
         luminanceToChar L cs False = Some (cs ! nat index) \<and>
         0 \<le> index \<and> index < int (length cs) \<and>
         \<bar>index - exact_index L cs\<bar> \<le> 1 \<and>
         (\<lfloor>index_product L cs - tolerance (index_product L cs)\<rfloor> =
          \<lfloor>index_product L cs + tolerance (index_product L cs)\<rfloor> \<longrightarrow>
          index = exact_index L cs)"
    unfolding E_def by blast
next
  assume "cs \<noteq> [] \<and> length cs \<le> 2 ^ 32"
  then have h: "cs \<noteq> []" "length cs \<le> 2 ^ 32"
    by blast+
  from h(1) have len: "1 \<le> length cs"
    by (cases cs) simp_all
  have zero: "fmul (fdiv 0 255) (of_int (int (length cs) - 1)) = 0"
    by (simp add: fmul_def fdiv_def fl_def)
  have "fl (of_int 1) = of_int 1"
    by (rule fl_of_int) simp_all
  then have one: "fdiv 255 255 = 1"
    by (simp add: fdiv_def)
  from h(2) have "int (length cs) - 1 < 2 ^ 53"
    by simp
  moreover from h(1) have "0 \<le> int (length cs) - 1"
    by simp
  ultimately have "fl (of_int (int (length cs) - 1)) = of_int (int (length cs) - 1)"
    by (intro fl_of_int)
  then have last: "fmul (fdiv 255 255) (of_int (int (length cs) - 1)) = of_int (int (length cs) - 1)"
    by (simp add: fmul_def one)
  have "luminanceIndex 0 cs False = max 0 (min (int (length cs) - 1) \<lfloor>0::rat\<rfloor>)"
    by (simp only: luminanceIndex_def Let_def if_False zero)
  with len have i0: "luminanceIndex 0 cs False = 0"
    by simp
  have "luminanceIndex 255 cs False =
      max 0 (min (int (length cs) - 1) \<lfloor>rat_of_int (int (length cs) - 1)\<rfloor>)"
    by (simp only: luminanceIndex_def Let_def if_False last)
  with len have i255: "luminanceIndex 255 cs False = int (length cs) - 1"
    by simp
  from h(1) show "luminanceToChar 0 cs False = Some (cs ! 0)"
    by (simp add: luminanceToChar_def Let_def i0)
  from h(1) show "luminanceToChar 255 cs False = Some (cs ! (length cs - 1))"
    by (simp add: luminanceToChar_def Let_def i255 nat_diff_distrib')
next
  assume l: "length cs = 3"
  have i0: "\<lfloor>fmul (fdiv 0 255) 2\<rfloor> = 0"
    by code_simp
  have i128: "\<lfloor>fmul (fdiv 128 255) 2\<rfloor> = 1"
    by code_simp
  have i255: "\<lfloor>fmul (fdiv 255 255) 2\<rfloor> = 2"
    by code_simp
  from l show "luminanceToChar 0 cs False = Some (cs ! 0)"
    by (simp add: luminanceToChar_def luminanceIndex_def Let_def i0)
  from l show "luminanceToChar 128 cs False = Some (cs ! 1)"
    by (simp add: luminanceToChar_def luminanceIndex_def Let_def i128)
  from l show "luminanceToChar 255 cs False = Some (cs ! 2)"
    by (simp add: luminanceToChar_def luminanceIndex_def Let_def i255)
qed

theorem luminanceToChar_non_inverted_witness:
  "js ''A B'' \<noteq> [] \<and> length (js ''A B'') \<le> 2 ^ 32 \<and> (0::rat) \<le> 128 \<and> (128::rat) \<le> 255 \<and>
   length (js ''A B'') = 3 \<and> exact_index 128 (js ''A B'') = 1 \<and>
   luminanceToChar 0 (js ''A B'') False = Some 0x41 \<and>
   luminanceToChar 128 (js ''A B'') False = Some 0x20 \<and>
   luminanceToChar 255 (js ''A B'') False = Some 0x42"
proof -
  have hyps: "js ''A B'' \<noteq> [] \<and> length (js ''A B'') \<le> 2 ^ 32 \<and> (0::rat) \<le> 128 \<and> (128::rat) \<le> 255"
    by (simp add: js_def)
  have len: "length (js ''A B'') = 3"
    by (simp add: js_def)
  have ip: "index_product 128 (js ''A B'') = 256 / 255"
    by (simp add: index_product_def len)
  have ex: "exact_index 128 (js ''A B'') = 1"
    by (simp add: exact_index_def ip len floor_eq_iff)
  have "\<lfloor>index_product 128 (js ''A B'') - tolerance (index_product 128 (js ''A B''))\<rfloor> = 1"
    and "\<lfloor>index_product 128 (js ''A B'') + tolerance (index_product 128 (js ''A B''))\<rfloor> = 1"
    by (simp_all add: ip tolerance_def floor_eq_iff)
  then have fl: "\<lfloor>index_product 128 (js ''A B'') - tolerance (index_product 128 (js ''A B''))\<rfloor> =
            \<lfloor>index_product 128 (js ''A B'') + tolerance (index_product 128 (js ''A B''))\<rfloor>"
    by simp
  from luminanceToChar_non_inverted [of "js ''A B''" 128] hyps
  obtain index where
    g: "luminanceToChar 128 (js ''A B'') False = Some (js ''A B'' ! nat index)"
    and x: "\<lfloor>index_product 128 (js ''A B'') - tolerance (index_product 128 (js ''A B''))\<rfloor> =
            \<lfloor>index_product 128 (js ''A B'') + tolerance (index_product 128 (js ''A B''))\<rfloor> \<longrightarrow>
            index = exact_index 128 (js ''A B'')"
    by blast
  from x fl ex have "index = 1"
    by simp
  with g have mid: "luminanceToChar 128 (js ''A B'') False = Some 0x20"
    by (simp add: js_def)
  from luminanceToChar_non_inverted [of "js ''A B''" 128] hyps
  have "luminanceToChar 0 (js ''A B'') False = Some (js ''A B'' ! 0)"
    and "luminanceToChar 255 (js ''A B'') False = Some (js ''A B'' ! (length (js ''A B'') - 1))"
    by blast+
  then have ends: "luminanceToChar 0 (js ''A B'') False = Some 0x41"
    "luminanceToChar 255 (js ''A B'') False = Some 0x42"
    by (simp_all add: js_def)
  from hyps len ex mid ends show ?thesis
    by blast
qed

text \<open>
  Claim C6, as stated: for every luminance \<open>L\<close> between 0 and 255 and every charset that
  is not empty, the inverted mapping of \<open>L\<close> is the plain mapping of \<open>255 - L\<close>. In
  binary64 \<open>1 - 204 / 255\<close> is below \<open>51 / 255\<close>, and with six glyphs the inverted mapping
  of 204 selects index 0 where the plain mapping of 51 selects index 1.
\<close>

theorem inversion_symmetry_counterexample:
  "luminanceToChar 204 (js ''abcdef'') True \<noteq>
   luminanceToChar (fsub 255 204) (js ''abcdef'') False"
  by code_simp

text \<open>
  Claim C6, amended: for every luminance \<open>L\<close> between 0 and 255 and every charset that
  is not empty (and no longer than \<open>2^32\<close>, as every string is), the glyph index of the
  inverted mapping of \<open>L\<close> and that of the plain mapping of \<open>255 - L\<close> differ by at most
  one, and the two glyphs are the same whenever the adjusted luminances \<open>1 - L / 255\<close>
  and \<open>(255 - L) / 255\<close> are the same binary64 number.
\<close>

theorem inversion_near_symmetry:
  assumes "0 \<le> L" and "L \<le> 255" and "cs \<noteq> []" and "length cs \<le> 2 ^ 32"
  shows "luminanceToChar L cs True = Some (cs ! nat (luminanceIndex L cs True)) \<and>
         luminanceToChar (fsub 255 L) cs False =
           Some (cs ! nat (luminanceIndex (fsub 255 L) cs False)) \<and>
         \<bar>luminanceIndex L cs True - luminanceIndex (fsub 255 L) cs False\<bar> \<le> 1 \<and>
         (fsub 1 (fdiv L 255) = fdiv (fsub 255 L) 255 \<longrightarrow>
            luminanceToChar L cs True = luminanceToChar (fsub 255 L) cs False)"
proof (intro conjI impI)
  have defined: "nat (luminanceIndex l cs i) < length cs" for l i
    unfolding luminanceIndex_def Let_def using assms(3) by (rule clamped_index_in_range)
  show "luminanceToChar L cs True = Some (cs ! nat (luminanceIndex L cs True))"
    by (simp add: luminanceToChar_def Let_def defined)
  show "luminanceToChar (fsub 255 L) cs False =
      Some (cs ! nat (luminanceIndex (fsub 255 L) cs False))"
    by (simp add: luminanceToChar_def Let_def defined)
  show "\<bar>luminanceIndex L cs True - luminanceIndex (fsub 255 L) cs False\<bar> \<le> 1"
    using assms by (rule luminanceIndex_inverted_close)
  assume "fsub 1 (fdiv L 255) = fdiv (fsub 255 L) 255"
  then show "luminanceToChar L cs True = luminanceToChar (fsub 255 L) cs False"
    by (simp add: luminanceToChar_def luminanceIndex_def Let_def)
qed

theorem inversion_near_symmetry_witness:
  "(0::rat) \<le> 204 \<and> (204::rat) \<le> 255 \<and> js ''abcdef'' \<noteq> [] \<and>
   length (js ''abcdef'') \<le> 2 ^ 32 \<and>
   luminanceIndex 204 (js ''abcdef'') True = 0 \<and>
   luminanceIndex (fsub 255 204) (js ''abcdef'') False = 1 \<and>
   \<bar>luminanceIndex 204 (js ''abcdef'') True -
     luminanceIndex (fsub 255 204) (js ''abcdef'') False\<bar> \<le> 1 \<and>
   fsub 1 (fdiv 64 255) = fdiv (fsub 255 64) 255 \<and>
   luminanceToChar 64 (js ''abcdef'') True = luminanceToChar (fsub 255 64) (js ''abcdef'') False"
proof -
  have ne: "js ''abcdef'' \<noteq> []" and len: "length (js ''abcdef'') \<le> 2 ^ 32"
    by (simp_all add: js_def)
  have i: "luminanceIndex 204 (js ''abcdef'') True = 0"
    and j: "luminanceIndex (fsub 255 204) (js ''abcdef'') False = 1"
    by code_simp+
  have h: "fsub 1 (fdiv 64 255) = fdiv (fsub 255 64) 255"
    by code_simp
  have r1: "(0::rat) \<le> 204" "(204::rat) \<le> 255" and r2: "(0::rat) \<le> 64" "(64::rat) \<le> 255"
    by simp_all
  from inversion_near_symmetry [OF r1 ne len]
  have d: "\<bar>luminanceIndex 204 (js ''abcdef'') True -
     luminanceIndex (fsub 255 204) (js ''abcdef'') False\<bar> \<le> 1"
    by blast
  from inversion_near_symmetry [OF r2 ne len] h
  have g: "luminanceToChar 64 (js ''abcdef'') True =
      luminanceToChar (fsub 255 64) (js ''abcdef'') False"
    by blast
  from r1 ne len i j d h g show ?thesis
    by blast
qed

section \<open>The end-to-end scenario\<close>

lemma scenario_generator:
  "AsciiGenerator scenario_options =
     Inr \<lparr>config = \<lparr>charset = js ''STANDARD'', inverted = False, colored = False,
                      aspectRatio = fl (11 / 20), width = 2, height = 0, optimized = True\<rparr>,
          gen_charset = std_charset\<rparr>"
  by code_simp

lemma scenario_dimensions:
  "calculateDimensions 2 2 (Some 2) None (fl (11 / 20)) = Some (2, 1)"
  by code_simp

lemma scenario_pixels:
  "processPixelData
     \<lparr>config = \<lparr>charset = js ''STANDARD'', inverted = False, colored = False,
                 aspectRatio = fl (11 / 20), width = 2, height = 0, optimized = True\<rparr>,
      gen_charset = std_charset\<rparr> solid_black_2x2 (2, 1) =
     Inr \<lparr>text = js ''@@'',
          html = js ''<pre style='' @ [0x22] @
                 js ''font-family:monospace;line-height:1;white-space:pre'' @ [0x22] @
                 js ''>@@</pre>'',
          characters = [js ''@@''], colors = None\<rparr>"
  by code_simp

text \<open>
  Claim C3, as stated: converting the 2 by 2 opaque black image with STANDARD, width 2,
  height 0 and the default aspect ratio gives two rows of two \<open>@\<close>, the text of the two
  rows joined by a newline, and a character count of 4. It does not.
\<close>

theorem black_2x2_scenario_counterexample:
  "\<not> (case convert_with scenario_options (ImageData solid_black_2x2) 0 1 of
         Inl e \<Rightarrow> False
       | Inr out \<Rightarrow> characters out = [js ''@@'', js ''@@''] \<and>
                    text out = js ''@@'' @ [0x0A] @ js ''@@'' \<and>
                    characterCount (metadata out) = 4)"
  by code_simp

text \<open>
  Claim C3, amended: the grid height is \<open>floor(2 / 2 * 2 * 0.55) = 1\<close>, so the conversion
  gives one row of two \<open>@\<close>, the text \<open>@@\<close>, and a character count of 2.
\<close>

theorem black_2x2_scenario:
  "convert_with scenario_options (ImageData solid_black_2x2) startTime endTime =
     Inr \<lparr>text = js ''@@'',
          html = js ''<pre style='' @ [0x22] @
                 js ''font-family:monospace;line-height:1;white-space:pre'' @ [0x22] @
                 js ''>@@</pre>'',
          characters = [js ''@@''], colors = None,
          metadata = \<lparr>meta_width = 2, meta_height = 1, characterCount = 2,
                      processingTime = fsub endTime startTime,
                      meta_charset = std_charset, hasColor = False\<rparr>\<rparr>"
proof -
  have pd: "pd_width solid_black_2x2 = 2" "pd_height solid_black_2x2 = 2"
    by (simp_all add: solid_black_2x2_def)
  show ?thesis
    unfolding convert_with_def scenario_generator
    by (simp add: convertImage_def extractPixelData_def pd or_undefined_def
        scenario_dimensions scenario_pixels)
qed

section \<open>Cell sampling\<close>

lemma plus_pixels_Nil: "plus_pixels pd [] s = s"
  by (simp add: plus_pixels_def)

lemma plus_pixels_append:
  "plus_pixels pd (ps @ qs) s = plus_pixels pd qs (plus_pixels pd ps s)"
  by (simp add: plus_pixels_def)

lemma add_pixel_eq:
  "add_pixel pd y x s =
     plus_pixels pd (if (y * pd_width pd + x) * 4 + 3 < length (data pd) then [(x, y)] else []) s"
  by (simp add: add_pixel_def plus_pixels_def channel_def Let_def)

lemma row_pixels_step:
  "x < endX \<Longrightarrow> x < pd_width pd \<Longrightarrow>
   row_pixels pd y x endX =
     (if (y * pd_width pd + x) * 4 + 3 < length (data pd) then [(x, y)] else [])
     @ row_pixels pd y (x + 1) endX"
  by (simp add: row_pixels_def upt_conv_Cons)

lemma row_pixels_done:
  "\<not> (x < endX \<and> x < pd_width pd) \<Longrightarrow> row_pixels pd y x endX = []"
  by (auto simp add: row_pixels_def)

lemma sample_row_eq:
  "sample_row pd y endX x s = plus_pixels pd (row_pixels pd y x endX) s"
proof (induction pd y endX x s rule: sample_row.induct)
  case (1 pd y endX x s)
  show ?case
  proof (cases "x < endX \<and> x < pd_width pd")
    case True
    then have "sample_row pd y endX x s = sample_row pd y endX (x + 1) (add_pixel pd y x s)"
      by (subst sample_row.simps) simp
    also have "\<dots> = plus_pixels pd (row_pixels pd y (x + 1) endX) (add_pixel pd y x s)"
      using True by (rule "1.IH")
    also have "\<dots> = plus_pixels pd (row_pixels pd y x endX) s"
      using True by (simp only: add_pixel_eq row_pixels_step plus_pixels_append)
    finally show ?thesis .
  next
    case False
    then have "sample_row pd y endX x s = s"
      by (subst sample_row.simps) auto
    with False show ?thesis
      by (simp add: row_pixels_done plus_pixels_Nil)
  qed
qed

lemma sample_rows_eq:
  "sample_rows pd startX endX endY y s =
     plus_pixels pd
       (concat (map (\<lambda>y. row_pixels pd y startX endX) [y ..< min endY (pd_height pd)])) s"
proof (induction pd startX endX endY y s rule: sample_rows.induct)
  case (1 pd startX endX endY y s)
  show ?case
  proof (cases "y < endY \<and> y < pd_height pd")
    case True
    then have "sample_rows pd startX endX endY y s =
        sample_rows pd startX endX endY (y + 1) (sample_row pd y endX startX s)"
      by (subst sample_rows.simps) simp
    also have "\<dots> = plus_pixels pd
        (concat (map (\<lambda>y. row_pixels pd y startX endX) [y + 1 ..< min endY (pd_height pd)]))
        (sample_row pd y endX startX s)"
      using True by (rule "1.IH")
    also have "\<dots> = plus_pixels pd
        (concat (map (\<lambda>y. row_pixels pd y startX endX) [y ..< min endY (pd_height pd)])) s"
      using True by (simp add: sample_row_eq upt_conv_Cons plus_pixels_append)
    finally show ?thesis .
  next
    case False
    then have "sample_rows pd startX endX endY y s = s"
      by (subst sample_rows.simps) auto
    moreover from False have "min endY (pd_height pd) \<le> y"
      by auto
    ultimately show ?thesis
      by (simp only: upt_conv_Nil list.map concat.simps plus_pixels_Nil)
  qed
qed

lemma sample_cell_sums:
  "0 < gridWidth \<Longrightarrow> 0 < gridHeight \<Longrightarrow>
   sample_rows pd (cell_bound (pd_width pd) gridWidth gridX)
     (cell_bound (pd_width pd) gridWidth (gridX + 1))
     (cell_bound (pd_height pd) gridHeight (gridY + 1))
     (cell_bound (pd_height pd) gridHeight gridY)
     \<lparr>sum_r = 0, sum_g = 0, sum_b = 0, sum_a = 0, sampleCount = 0\<rparr>
   = \<lparr>sum_r = sum_list (map (channel pd 0) (cell_pixels pd gridX gridY gridWidth gridHeight)),
      sum_g = sum_list (map (channel pd 1) (cell_pixels pd gridX gridY gridWidth gridHeight)),
      sum_b = sum_list (map (channel pd 2) (cell_pixels pd gridX gridY gridWidth gridHeight)),
      sum_a = sum_list (map (channel pd 3) (cell_pixels pd gridX gridY gridWidth gridHeight)),
      sampleCount = length (cell_pixels pd gridX gridY gridWidth gridHeight)\<rparr>"
  by (simp add: sample_rows_eq cell_pixels_def plus_pixels_def)

lemma channel_range: "0 \<le> channel pd k p \<and> channel pd k p \<le> 255"
proof -
  have "uint w \<le> 255" for w :: "8 word"
    using uint_lt2p [of w] by simp
  then show ?thesis
    unfolding channel_def by simp
qed

lemma sum_channel_range:
  "0 \<le> sum_list (map (channel pd k) ps) \<and>
   sum_list (map (channel pd k) ps) \<le> 255 * int (length ps)"
proof (induction ps)
  case Nil
  show ?case by simp
next
  case (Cons p ps)
  with channel_range [of pd k p] show ?case
    by simp
qed

lemma length_row_pixels: "length (row_pixels pd y startX endX) \<le> pd_width pd"
proof -
  have "length (row_pixels pd y startX endX) \<le> length [startX ..< min endX (pd_width pd)]"
    unfolding row_pixels_def length_map by (rule length_filter_le)
  then show ?thesis
    by simp
qed

lemma length_concat_rows:
  "length (concat (map (\<lambda>y. row_pixels pd y startX endX) ys)) \<le> pd_width pd * length ys"
proof (induction ys)
  case Nil
  show ?case by simp
next
  case (Cons y ys)
  with length_row_pixels [of pd y startX endX] show ?case
    by simp
qed

lemma length_cell_pixels:
  "length (cell_pixels pd gridX gridY gridWidth gridHeight) \<le> pd_width pd * pd_height pd"
proof -
  let ?ys = "[cell_bound (pd_height pd) gridHeight gridY ..<
              min (cell_bound (pd_height pd) gridHeight (gridY + 1)) (pd_height pd)]"
  have "length (cell_pixels pd gridX gridY gridWidth gridHeight) \<le> pd_width pd * length ?ys"
    unfolding cell_pixels_def by (rule length_concat_rows)
  also have "\<dots> \<le> pd_width pd * pd_height pd"
    by (intro mult_le_mono2) simp
  finally show ?thesis .
qed

lemma samplePixelColor_eq:
  assumes "0 < gridWidth" and "0 < gridHeight"
  shows "samplePixelColor pd gridX gridY gridWidth gridHeight =
     (if cell_pixels pd gridX gridY gridWidth gridHeight = []
      then \<lparr>red = 0, green = 0, blue = 0, alpha = 255\<rparr>
      else rounded_mean pd (cell_pixels pd gridX gridY gridWidth gridHeight))"
  unfolding samplePixelColor_def Let_def sample_cell_sums [OF assms] rounded_mean_def
  using assms by simp

lemma rounded_mean_eq:
  assumes "ps \<noteq> []" and "length ps \<le> 2 ^ 32"
  shows "rounded_mean pd ps = floor_mean pd ps"
proof -
  from assms(1) have pos: "0 < length ps"
    by simp
  have "\<lfloor>fdiv (of_int (sum_list (map (channel pd k) ps))) (of_nat (length ps))\<rfloor> =
        sum_list (map (channel pd k) ps) div int (length ps)" for k
    using sum_channel_range [of pd k ps] pos assms(2)
    by (intro floor_fdiv_div) simp_all
  then show ?thesis
    by (simp add: rounded_mean_def floor_mean_def)
qed

text \<open>
  The bounds that \<open>samplePixelColor\<close> computes for a cell are near the exact ones: the
  two roundings move \<open>i * (extent / gridSize)\<close> by less than \<open>1 / gridSize\<close>, which
  changes its floor only when the exact value is an integer.
\<close>

lemma exact_bound_div: "exact_bound extent gridSize i = i * extent div gridSize"
proof -
  have "rat_of_nat i * (of_nat extent / of_nat gridSize) = of_nat (i * extent) / of_nat gridSize"
    by simp
  then have "\<lfloor>rat_of_nat i * (of_nat extent / of_nat gridSize)\<rfloor> = int (i * extent div gridSize)"
    by (simp only: floor_divide_of_nat_eq)
  then show ?thesis
    by (simp add: exact_bound_def)
qed

lemma cell_bound_close:
  assumes g: "0 < gridSize" and i: "i \<le> gridSize" and sz: "extent * gridSize \<le> 2 ^ 50"
    and pos: "0 < extent"
  shows "\<bar>fmul (of_nat i) (fdiv (of_nat extent) (of_nat gridSize)) -
          of_nat (i * extent) / of_nat gridSize\<bar> < 1 / of_nat gridSize"
proof -
  define eps where "eps = pow2 (- 53)"
  define eta where "eta = pow2 (- 1075)"
  define G :: rat where "G = of_nat gridSize"
  define I :: rat where "I = of_nat i"
  define x :: rat where "x = of_nat extent / G"
  define X :: rat where "X = of_nat (i * extent) / G"
  have eps: "0 \<le> eps" "1 + eps \<le> 2"
    by (simp_all add: eps_def pow2_def)
  have eta: "0 \<le> eta"
    by (simp add: eta_def pow2_def)
  have d3: "2 ^ 50 * (eps + eps + eps * eps) \<le> 3 / 8"
    by (simp add: eps_def pow2_def)
  have eta_small: "2 ^ 50 * (eta * 2 ^ 51 + eta) \<le> 1 / 8"
    by (simp add: eta_def pow2_def)
  have Gpos: "0 < G"
    using g by (simp add: G_def)
  from pos have "gridSize \<le> extent * gridSize"
    by simp
  from this sz have "gridSize \<le> 2 ^ 50"
    by (rule order_trans)
  then have G50: "G \<le> 2 ^ 50"
    unfolding G_def by (metis of_nat_le_iff of_nat_numeral of_nat_power)
  from i have "I \<le> G"
    by (simp add: I_def G_def)
  with G50 have I50: "I \<le> 2 ^ 50"
    by simp
  have I0: "0 \<le> I"
    by (simp add: I_def)
  from i have "i * extent \<le> gridSize * extent"
    by (rule mult_le_mono1)
  moreover from sz have "gridSize * extent \<le> 2 ^ 50"
    by (simp only: mult.commute)
  ultimately have "i * extent \<le> 2 ^ 50"
    by (rule order_trans)
  then have m50: "rat_of_nat (i * extent) \<le> 2 ^ 50"
    by (metis of_nat_le_iff of_nat_numeral of_nat_power)
  have X0: "0 \<le> X"
    using Gpos by (simp add: X_def)
  have GX: "G * X = of_nat (i * extent)"
    using Gpos by (simp add: X_def)
  have xI: "x * I = X"
    by (simp add: x_def X_def I_def)
  have q: "\<bar>fl x - x\<bar> \<le> \<bar>x\<bar> * eps + eta"
    unfolding eps_def eta_def by (rule fl_error)
  have "\<bar>fl (fl x * I) - x * I\<bar> \<le>
      \<bar>x * I\<bar> * (eps + eps + eps * eps) + (eta * \<bar>I\<bar> * (1 + eps) + eta)"
    using fl_scaled_error [OF q eps(1) eta, of I] by (simp add: eps_def eta_def)
  with X0 I0 have err: "\<bar>fl (fl x * I) - X\<bar> \<le> X * (eps + eps + eps * eps) + (eta * I * (1 + eps) + eta)"
    by (simp add: xI)
  have "G * (X * (eps + eps + eps * eps)) = of_nat (i * extent) * (eps + eps + eps * eps)"
    by (simp only: mult.assoc [symmetric] GX)
  also have "\<dots> \<le> 2 ^ 50 * (eps + eps + eps * eps)"
    using m50 eps(1) by (intro mult_right_mono) simp_all
  finally have rel: "G * (X * (eps + eps + eps * eps)) \<le> 3 / 8"
    using d3 by simp
  have "I * (1 + eps) \<le> 2 ^ 50 * 2"
    using I50 eps I0 by (intro mult_mono) simp_all
  then have "I * (1 + eps) \<le> 2 ^ 51"
    by simp
  then have "eta * (I * (1 + eps)) \<le> eta * 2 ^ 51"
    using eta by (rule mult_left_mono)
  moreover have "eta * I * (1 + eps) = eta * (I * (1 + eps))"
    by (rule mult.assoc)
  ultimately have a1: "eta * I * (1 + eps) + eta \<le> eta * 2 ^ 51 + eta"
    by simp
  moreover have a0: "0 \<le> eta * I * (1 + eps) + eta"
    using eta I0 eps(1) by simp
  ultimately have "G * (eta * I * (1 + eps) + eta) \<le> 2 ^ 50 * (eta * 2 ^ 51 + eta)"
    using G50 Gpos by (intro mult_mono) simp_all
  with eta_small have abs_part: "G * (eta * I * (1 + eps) + eta) \<le> 1 / 8"
    by simp
  have "G * \<bar>fl (fl x * I) - X\<bar> \<le> G * (X * (eps + eps + eps * eps) + (eta * I * (1 + eps) + eta))"
    using err Gpos by (intro mult_left_mono) simp_all
  also have "\<dots> = G * (X * (eps + eps + eps * eps)) + G * (eta * I * (1 + eps) + eta)"
    by (rule distrib_left)
  also have "\<dots> \<le> 3 / 8 + 1 / 8"
    using rel abs_part by (rule add_mono)
  finally have "\<bar>fl (fl x * I) - X\<bar> * G < 1"
    by (simp add: mult.commute)
  then have "\<bar>fl (fl x * I) - X\<bar> < 1 / G"
    using Gpos by (simp add: pos_less_divide_eq)
  then show ?thesis
    by (simp add: fmul_def fdiv_def x_def X_def I_def G_def mult.commute)
qed

lemma cell_bound_near:
  assumes g: "0 < gridSize" and i: "i \<le> gridSize" and sz: "extent * gridSize \<le> 2 ^ 50"
  shows "near_exact_bound extent gridSize i (cell_bound extent gridSize i)"
proof (cases "extent = 0")
  case True
  have "cell_bound 0 gridSize i = 0"
    by (simp add: cell_bound_def fmul_def fdiv_def fl_def)
  then show ?thesis
    using True by (simp add: near_exact_bound_def exact_bound_div)
next
  case False
  then have pos: "0 < extent"
    by simp
  define G :: rat where "G = of_nat gridSize"
  define y where "y = fmul (of_nat i) (fdiv (of_nat extent) (of_nat gridSize))"
  define k where "k = i * extent div gridSize"
  define r where "r = i * extent mod gridSize"
  have Gpos: "0 < G"
    using g by (simp add: G_def)
  have G1: "1 \<le> G"
    using g by (simp add: G_def)
  have m: "i * extent = k * gridSize + r"
    by (simp add: k_def r_def)
  have X: "rat_of_nat (i * extent) / G = of_nat k + of_nat r / G"
    unfolding m G_def using g by (simp add: field_simps)
  have "\<bar>y - rat_of_nat (i * extent) / G\<bar> < 1 / G"
    unfolding y_def G_def by (rule cell_bound_close [OF g i sz pos])
  then have close: "\<bar>y - (of_nat k + of_nat r / G)\<bar> < 1 / G"
    by (simp only: X)
  have y0: "0 \<le> y"
    by (simp add: y_def fmul_def fdiv_def fl_nonneg)
  have b: "cell_bound extent gridSize i = nat \<lfloor>y\<rfloor>"
    by (simp add: cell_bound_def y_def)
  show ?thesis
  proof (cases "r = 0")
    case False
    have "r < gridSize"
      unfolding r_def using g by simp
    with False have r: "1 \<le> r" "r + 1 \<le> gridSize"
      by simp_all
    from r(1) have "(1::rat) \<le> of_nat r"
      by simp
    then have lo: "1 / G \<le> of_nat r / G"
      using Gpos by (simp add: divide_right_mono)
    from r(2) have "rat_of_nat r + 1 \<le> G"
      unfolding G_def by (metis of_nat_1 of_nat_add of_nat_le_iff)
    then have "(rat_of_nat r + 1) / G \<le> G / G"
      using Gpos by (intro divide_right_mono) simp_all
    then have hi: "of_nat r / G + 1 / G \<le> 1"
      using Gpos by (simp add: add_divide_distrib)
    from close lo hi have "of_nat k \<le> y" "y < of_nat k + 1"
      by linarith+
    then have "\<lfloor>y\<rfloor> = int k"
      by (intro floor_unique) simp_all
    then have "cell_bound extent gridSize i = k"
      by (simp add: b)
    then show ?thesis
      by (simp add: near_exact_bound_def exact_bound_div k_def)
  next
    case True
    then have dvd: "gridSize dvd i * extent"
      by (simp add: r_def mod_eq_0_iff_dvd)
    show ?thesis
    proof (cases "gridSize dvd extent")
      case True
      then obtain j where j: "extent = gridSize * j"
        by (rule dvdE)
      from g have "extent \<le> extent * gridSize"
        by simp
      from this sz have e50: "extent \<le> 2 ^ 50"
        by (rule order_trans)
      have "j \<le> extent"
        unfolding j using g by simp
      from this e50 have "j \<le> 2 ^ 50"
        by (rule order_trans)
      then have "fl (of_nat j) = of_nat j"
        by (rule fl_of_nat)
      then have c: "fdiv (of_nat extent) (of_nat gridSize) = of_nat j"
        unfolding fdiv_def j using g by simp
      have "i * j \<le> gridSize * j"
        using i by (rule mult_le_mono1)
      moreover from e50 have "gridSize * j \<le> 2 ^ 50"
        by (simp only: j)
      ultimately have "i * j \<le> 2 ^ 50"
        by (rule order_trans)
      then have "fl (of_nat (i * j)) = of_nat (i * j)"
        by (rule fl_of_nat)
      then have "y = of_nat (i * j)"
        by (simp add: y_def c fmul_def)
      then have "cell_bound extent gridSize i = i * j"
        by (simp add: b del: of_nat_mult)
      moreover have "exact_bound extent gridSize i = i * j"
        unfolding exact_bound_div j using g by simp
      ultimately show ?thesis
        by (simp add: near_exact_bound_def)
    next
      case False
      from close True G1 Gpos have "\<bar>y - of_nat k\<bar> < 1"
      proof -
        have "1 / G \<le> 1"
          using G1 by simp
        with close True show ?thesis
          by simp
      qed
      then have "of_nat k - 1 < y" "y < of_nat k + 1"
        by linarith+
      then have "int k - 1 \<le> \<lfloor>y\<rfloor>" "\<lfloor>y\<rfloor> \<le> int k"
        by (simp_all add: le_floor_iff floor_le_iff)
      moreover from y0 have "0 \<le> \<lfloor>y\<rfloor>"
        by simp
      ultimately have "nat \<lfloor>y\<rfloor> = k \<or> nat \<lfloor>y\<rfloor> + 1 = k"
        by linarith
      with dvd False show ?thesis
        by (auto simp add: near_exact_bound_def exact_bound_div k_def b)
    qed
  qed
qed

lemma cell_pixels_rectangle:
  "cell_pixels pd gridX gridY gridWidth gridHeight =
     rectangle_pixels pd
       (cell_bound (pd_width pd) gridWidth gridX)
       (cell_bound (pd_width pd) gridWidth (gridX + 1))
       (cell_bound (pd_height pd) gridHeight gridY)
       (cell_bound (pd_height pd) gridHeight (gridY + 1))"
  by (simp add: cell_pixels_def rectangle_pixels_def)

lemma near_exact_bound_dvd:
  "gridSize dvd extent \<Longrightarrow> near_exact_bound extent gridSize i b \<Longrightarrow>
   b = exact_bound extent gridSize i"
  by (simp add: near_exact_bound_def)

text \<open>
  Claim C9, as stated: for a cell \<open>(gridX, gridY)\<close> of a grid of \<open>gridWidth\<close> by
  \<open>gridHeight\<close>, \<open>samplePixelColor\<close> sums each of the four channels over the pixels of
  the cell's rectangle
  \<open>[floor(x * cw), floor((x + 1) * cw)) \<times> [floor(y * ch), floor((y + 1) * ch))\<close> that lie
  inside the buffer and divides each sum by the number of those pixels, rounding down;
  when there is no such pixel it returns \<open>{r: 0, g: 0, b: 0, a: 255}\<close>. For an image of one
  pixel and the last cell of a grid of 49 by 1, the rectangle contains the pixel, but
  in binary64 \<open>49 * (1 / 49)\<close> is below 1, the source samples nothing, and it returns
  \<open>{r: 0, g: 0, b: 0, a: 255}\<close> instead of the colour of the pixel.
\<close>

theorem samplePixelColor_average_counterexample:
  "samplePixelColor one_grey_pixel 48 0 49 1 \<noteq>
     (if exact_cell_pixels one_grey_pixel 48 0 49 1 = []
      then \<lparr>red = 0, green = 0, blue = 0, alpha = 255\<rparr>
      else floor_mean one_grey_pixel (exact_cell_pixels one_grey_pixel 48 0 49 1))"
  by code_simp

text \<open>
  Claim C9, amended: for a cell \<open>(gridX, gridY)\<close> inside a grid of \<open>gridWidth\<close> by
  \<open>gridHeight\<close> and a buffer of at most \<open>2^32\<close> pixels (with
  \<open>width * gridWidth\<close> and \<open>height * gridHeight\<close> at most \<open>2^50\<close>), \<open>samplePixelColor\<close>
  sums each of the four channels over the pixels inside the buffer of a rectangle
  \<open>[startX, endX) \<times> [startY, endY)\<close> and divides each sum by the number of those pixels,
  rounding down; when there is no such pixel it returns \<open>{r: 0, g: 0, b: 0, a: 255}\<close> and
  divides nothing. Each bound of the rectangle is the exact bound
  \<open>floor(i * (extent / gridSize))\<close>, or one below it in the case where
  \<open>i * extent / gridSize\<close> is an integer and \<open>extent / gridSize\<close> is not; so the rectangle
  is the exact one whenever the grid width divides the buffer width and the grid height
  divides the buffer height.
\<close>

theorem samplePixelColor_average:
  assumes "gridX < gridWidth" and "gridY < gridHeight"
    and "pd_width pd * gridWidth \<le> 2 ^ 50" and "pd_height pd * gridHeight \<le> 2 ^ 50"
    and "pd_width pd * pd_height pd \<le> 2 ^ 32"
  shows "(\<exists>startX endX startY endY.
            near_exact_bound (pd_width pd) gridWidth gridX startX \<and>
            near_exact_bound (pd_width pd) gridWidth (gridX + 1) endX \<and>
            near_exact_bound (pd_height pd) gridHeight gridY startY \<and>
            near_exact_bound (pd_height pd) gridHeight (gridY + 1) endY \<and>
            samplePixelColor pd gridX gridY gridWidth gridHeight =
              (if rectangle_pixels pd startX endX startY endY = []
               then \<lparr>red = 0, green = 0, blue = 0, alpha = 255\<rparr>
               else floor_mean pd (rectangle_pixels pd startX endX startY endY))) \<and>
         (gridWidth dvd pd_width pd \<and> gridHeight dvd pd_height pd \<longrightarrow>
            samplePixelColor pd gridX gridY gridWidth gridHeight =
              (if exact_cell_pixels pd gridX gridY gridWidth gridHeight = []
               then \<lparr>red = 0, green = 0, blue = 0, alpha = 255\<rparr>
               else floor_mean pd (exact_cell_pixels pd gridX gridY gridWidth gridHeight)))"
proof -
  define startX where "startX = cell_bound (pd_width pd) gridWidth gridX"
  define endX where "endX = cell_bound (pd_width pd) gridWidth (gridX + 1)"
  define startY where "startY = cell_bound (pd_height pd) gridHeight gridY"
  define endY where "endY = cell_bound (pd_height pd) gridHeight (gridY + 1)"
  from assms(1,2) have pos: "0 < gridWidth" "0 < gridHeight"
    and le: "gridX \<le> gridWidth" "gridX + 1 \<le> gridWidth"
      "gridY \<le> gridHeight" "gridY + 1 \<le> gridHeight"
    by simp_all
  have near: "near_exact_bound (pd_width pd) gridWidth gridX startX"
    "near_exact_bound (pd_width pd) gridWidth (gridX + 1) endX"
    "near_exact_bound (pd_height pd) gridHeight gridY startY"
    "near_exact_bound (pd_height pd) gridHeight (gridY + 1) endY"
    unfolding startX_def endX_def startY_def endY_def
    using pos le assms(3,4) by (simp_all only: cell_bound_near)
  have ps: "cell_pixels pd gridX gridY gridWidth gridHeight =
      rectangle_pixels pd startX endX startY endY"
    unfolding startX_def endX_def startY_def endY_def by (rule cell_pixels_rectangle)
  from assms(5) length_cell_pixels [of pd gridX gridY gridWidth gridHeight]
  have "length (rectangle_pixels pd startX endX startY endY) \<le> 2 ^ 32"
    unfolding ps by simp
  then have mean: "samplePixelColor pd gridX gridY gridWidth gridHeight =
      (if rectangle_pixels pd startX endX startY endY = []
       then \<lparr>red = 0, green = 0, blue = 0, alpha = 255\<rparr>
       else floor_mean pd (rectangle_pixels pd startX endX startY endY))"
    unfolding samplePixelColor_eq [OF pos] ps by (simp add: rounded_mean_eq)
  have exact: "samplePixelColor pd gridX gridY gridWidth gridHeight =
      (if exact_cell_pixels pd gridX gridY gridWidth gridHeight = []
       then \<lparr>red = 0, green = 0, blue = 0, alpha = 255\<rparr>
       else floor_mean pd (exact_cell_pixels pd gridX gridY gridWidth gridHeight))"
    if dvd: "gridWidth dvd pd_width pd" "gridHeight dvd pd_height pd"
  proof -
    from near dvd have "startX = exact_bound (pd_width pd) gridWidth gridX"
      "endX = exact_bound (pd_width pd) gridWidth (gridX + 1)"
      "startY = exact_bound (pd_height pd) gridHeight gridY"
      "endY = exact_bound (pd_height pd) gridHeight (gridY + 1)"
      by (simp_all only: near_exact_bound_dvd)
    then have "rectangle_pixels pd startX endX startY endY =
        exact_cell_pixels pd gridX gridY gridWidth gridHeight"
      by (simp only: exact_cell_pixels_def)
    with mean show ?thesis
      by simp
  qed
  from near mean exact show ?thesis
    by blast
qed

theorem samplePixelColor_average_witness:
  "(1::nat) < 3 \<and> (0::nat) < 1 \<and> pd_width four_pixels * 3 \<le> 2 ^ 50 \<and>
   pd_height four_pixels * 1 \<le> 2 ^ 50 \<and>
   pd_width four_pixels * pd_height four_pixels \<le> 2 ^ 32 \<and>
   samplePixelColor four_pixels 1 0 3 1 = \<lparr>red = 50, green = 60, blue = 70, alpha = 254\<rparr> \<and>
   samplePixelColor four_pixels 0 0 3 1 = \<lparr>red = 0, green = 0, blue = 0, alpha = 255\<rparr> \<and>
   (2::nat) dvd pd_width four_pixels \<and> (2::nat) dvd pd_height four_pixels \<and>
   samplePixelColor four_pixels 1 1 2 2 = \<lparr>red = 130, green = 140, blue = 153, alpha = 255\<rparr>"
proof -
  have w: "pd_width four_pixels = 2" and h: "pd_height four_pixels = 2"
    by (simp_all add: four_pixels_def)
  have sz: "pd_width four_pixels * 3 \<le> 2 ^ 50" "pd_height four_pixels * 1 \<le> 2 ^ 50"
    "pd_width four_pixels * 2 \<le> 2 ^ 50" "pd_height four_pixels * 2 \<le> 2 ^ 50"
    "pd_width four_pixels * pd_height four_pixels \<le> 2 ^ 32"
    by (simp_all add: w h)
  have ix: "(1::nat) < 3" "(0::nat) < 3" "(0::nat) < 1" "(1::nat) < 2"
    by simp_all
  have dvd: "(2::nat) dvd pd_width four_pixels" "(2::nat) dvd pd_height four_pixels"
    by (simp_all add: w h)
  from samplePixelColor_average [OF ix(1) ix(3) sz(1) sz(2) sz(5)]
  obtain startX endX startY endY where
    "near_exact_bound (pd_width four_pixels) 3 1 startX"
    "near_exact_bound (pd_width four_pixels) 3 (1 + 1) endX"
    "near_exact_bound (pd_height four_pixels) 1 0 startY"
    "near_exact_bound (pd_height four_pixels) 1 (0 + 1) endY"
    and c: "samplePixelColor four_pixels 1 0 3 1 =
      (if rectangle_pixels four_pixels startX endX startY endY = []
       then \<lparr>red = 0, green = 0, blue = 0, alpha = 255\<rparr>
       else floor_mean four_pixels (rectangle_pixels four_pixels startX endX startY endY))"
    by blast
  then have "startX = 0" "endX = 1" "startY = 0" "endY = 2"
    by (simp_all add: near_exact_bound_def exact_bound_div w h)
  moreover have "rectangle_pixels four_pixels 0 1 0 2 = [(0, 0), (0, 1)]"
    by code_simp
  ultimately have a: "samplePixelColor four_pixels 1 0 3 1 =
      \<lparr>red = 50, green = 60, blue = 70, alpha = 254\<rparr>"
    using c by (simp add: floor_mean_def channel_def four_pixels_def)
  from samplePixelColor_average [OF ix(2) ix(3) sz(1) sz(2) sz(5)]
  obtain startX endX startY endY where
    "near_exact_bound (pd_width four_pixels) 3 0 startX"
    "near_exact_bound (pd_width four_pixels) 3 (0 + 1) endX"
    and c: "samplePixelColor four_pixels 0 0 3 1 =
      (if rectangle_pixels four_pixels startX endX startY endY = []
       then \<lparr>red = 0, green = 0, blue = 0, alpha = 255\<rparr>
       else floor_mean four_pixels (rectangle_pixels four_pixels startX endX startY endY))"
    by blast
  then have "startX = 0" "endX = 0"
    by (simp_all add: near_exact_bound_def exact_bound_div w h)
  moreover have "rectangle_pixels four_pixels 0 0 startY endY = []"
    by (simp add: rectangle_pixels_def row_pixels_def)
  ultimately have b: "samplePixelColor four_pixels 0 0 3 1 =
      \<lparr>red = 0, green = 0, blue = 0, alpha = 255\<rparr>"
    using c by simp
  have "exact_cell_pixels four_pixels 1 1 2 2 = [(1, 1)]"
    by code_simp
  with samplePixelColor_average [OF ix(4) ix(4) sz(3) sz(4) sz(5)] dvd
  have d: "samplePixelColor four_pixels 1 1 2 2 =
      \<lparr>red = 130, green = 140, blue = 153, alpha = 255\<rparr>"
    by (simp add: floor_mean_def channel_def four_pixels_def)
  from ix(1,3) sz(1,2,5) a b dvd d show ?thesis
    by blast
qed

lemma samplePixelColor_ranges:
  assumes "0 < gridWidth" and "0 < gridHeight"
  shows "red (samplePixelColor pd gridX gridY gridWidth gridHeight) \<in> {0..255} \<and>
         green (samplePixelColor pd gridX gridY gridWidth gridHeight) \<in> {0..255} \<and>
         blue (samplePixelColor pd gridX gridY gridWidth gridHeight) \<in> {0..255} \<and>
         alpha (samplePixelColor pd gridX gridY gridWidth gridHeight) \<in> {0..255}"
proof (cases "cell_pixels pd gridX gridY gridWidth gridHeight = []")
  case True
  then show ?thesis
    by (simp add: samplePixelColor_eq [OF assms])
next
  case False
  then have pos: "0 < length (cell_pixels pd gridX gridY gridWidth gridHeight)"
    by simp
  have "0 \<le> \<lfloor>fdiv (of_int (sum_list (map (channel pd k)
                        (cell_pixels pd gridX gridY gridWidth gridHeight))))
                   (of_nat (length (cell_pixels pd gridX gridY gridWidth gridHeight)))\<rfloor> \<and>
        \<lfloor>fdiv (of_int (sum_list (map (channel pd k)
                        (cell_pixels pd gridX gridY gridWidth gridHeight))))
              (of_nat (length (cell_pixels pd gridX gridY gridWidth gridHeight)))\<rfloor> \<le> 255" for k
    using sum_channel_range [of pd k "cell_pixels pd gridX gridY gridWidth gridHeight"] pos
    by (intro floor_fdiv_range) simp_all
  with False show ?thesis
    by (simp add: samplePixelColor_eq [OF assms] rounded_mean_def)
qed

text \<open>
  Claim C10. For pixel data whose array has \<open>width * height * 4\<close> bytes (each between 0
  and 255, as bytes are) and a position inside a grid of at least one column and one
  row, every channel of the colour that \<open>samplePixelColor\<close> returns is an integer between
  0 and 255.
\<close>

theorem samplePixelColor_channel_range:
  assumes "length (data pd) = pd_width pd * pd_height pd * 4"
    and "1 \<le> gridWidth" and "1 \<le> gridHeight"
    and "gridX < gridWidth" and "gridY < gridHeight"
  shows "red (samplePixelColor pd gridX gridY gridWidth gridHeight) \<in> {0..255} \<and>
         green (samplePixelColor pd gridX gridY gridWidth gridHeight) \<in> {0..255} \<and>
         blue (samplePixelColor pd gridX gridY gridWidth gridHeight) \<in> {0..255} \<and>
         alpha (samplePixelColor pd gridX gridY gridWidth gridHeight) \<in> {0..255}"
proof -
  from assms(2,3) have "0 < gridWidth" "0 < gridHeight"
    by simp_all
  then show ?thesis
    by (rule samplePixelColor_ranges)
qed

theorem samplePixelColor_channel_range_witness:
  "length (data four_pixels) = pd_width four_pixels * pd_height four_pixels * 4 \<and>
   (1::nat) \<le> 2 \<and> (1::nat) \<le> 1 \<and> (1::nat) < 2 \<and> (0::nat) < 1 \<and>
   red (samplePixelColor four_pixels 1 0 2 1) \<in> {0..255} \<and>
   green (samplePixelColor four_pixels 1 0 2 1) \<in> {0..255} \<and>
   blue (samplePixelColor four_pixels 1 0 2 1) \<in> {0..255} \<and>
   alpha (samplePixelColor four_pixels 1 0 2 1) \<in> {0..255}"
proof -
  have l: "length (data four_pixels) = pd_width four_pixels * pd_height four_pixels * 4"
    by (simp add: four_pixels_def)
  have "red (samplePixelColor four_pixels 1 0 2 1) \<in> {0..255} \<and>
   green (samplePixelColor four_pixels 1 0 2 1) \<in> {0..255} \<and>
   blue (samplePixelColor four_pixels 1 0 2 1) \<in> {0..255} \<and>
   alpha (samplePixelColor four_pixels 1 0 2 1) \<in> {0..255}"
    by (rule samplePixelColor_channel_range [OF l]) simp_all
  with l show ?thesis
    by simp
qed

text \<open>
  The bounds of a cell are floors of numbers that are not negative, so reading them as
  naturals loses nothing.
\<close>

lemma cell_bound_floor_nonneg:
  "0 \<le> \<lfloor>fmul (of_nat i) (fdiv (of_nat extent) (of_nat gridSize))\<rfloor>"
  by (simp add: fmul_def fdiv_def fl_nonneg)

section \<open>The markup output\<close>

subsection \<open>Escaping and decoding\<close>

lemma escapeHtml_Cons:
  "escapeHtml (c # cs) =
     (if c \<in> set html_chars then (case escape_map c of Some s \<Rightarrow> s | None \<Rightarrow> js ''undefined'')
      else [c]) @ escapeHtml cs"
  by (simp add: escapeHtml_def)

lemma escapeHtml_Nil: "escapeHtml [] = []"
  by (simp add: escapeHtml_def)

lemma escapeHtml_glyph:
  "escapeHtml [ch] =
     (if ch = 0x26 then js ''&amp;'' else if ch = 0x3C then js ''&lt;''
      else if ch = 0x3E then js ''&gt;'' else if ch = 0x22 then js ''&quot;''
      else if ch = 0x27 then js ''&#039;'' else if ch = 0x60 then js ''&#96;'' else [ch])"
  by (simp add: escapeHtml_def html_chars_def escape_map_def)

lemma decode_entities_plain:
  "c \<noteq> 0x26 \<Longrightarrow> decode_entities (c # cs) = c # decode_entities cs"
  by (subst decode_entities.simps) (simp add: Let_def)

lemma decode_entities_reference:
  assumes "decode_reference body = Some ch" and "0x3B \<notin> set body"
  shows "decode_entities (0x26 # body @ 0x3B # rest) = ch # decode_entities rest"
proof -
  from assms(2) have tw: "takeWhile (\<lambda>d. d \<noteq> 0x3B) (body @ 0x3B # rest) = body"
    by (induction body) auto
  show ?thesis
    by (subst decode_entities.simps) (simp add: Let_def tw assms(1))
qed

lemma refs:
  "decode_reference (js ''amp'') = Some 0x26"
  "decode_reference (js ''lt'') = Some 0x3C"
  "decode_reference (js ''gt'') = Some 0x3E"
  "decode_reference (js ''quot'') = Some 0x22"
  "decode_reference (js ''#039'') = Some 0x27"
  "decode_reference (js ''#96'') = Some 0x60"
  by (simp_all add: decode_reference_def js_def digit_value_def code_unit_of_def
      named_reference_def)

lemma decode_escaped_char:
  "decode_entities (escapeHtml [ch] @ rest) = ch # decode_entities rest"
proof -
  have amp: "decode_entities (js ''&amp;'' @ rest) = 0x26 # decode_entities rest"
    using decode_entities_reference [of "js ''amp''" "0x26" rest] refs(1)
    by (simp add: js_def)
  have lt: "decode_entities (js ''&lt;'' @ rest) = 0x3C # decode_entities rest"
    using decode_entities_reference [of "js ''lt''" "0x3C" rest] refs(2)
    by (simp add: js_def)
  have gt: "decode_entities (js ''&gt;'' @ rest) = 0x3E # decode_entities rest"
    using decode_entities_reference [of "js ''gt''" "0x3E" rest] refs(3)
    by (simp add: js_def)
  have quot: "decode_entities (js ''&quot;'' @ rest) = 0x22 # decode_entities rest"
    using decode_entities_reference [of "js ''quot''" "0x22" rest] refs(4)
    by (simp add: js_def)
  have apos: "decode_entities (js ''&#039;'' @ rest) = 0x27 # decode_entities rest"
    using decode_entities_reference [of "js ''#039''" "0x27" rest] refs(5)
    by (simp add: js_def)
  have tick: "decode_entities (js ''&#96;'' @ rest) = 0x60 # decode_entities rest"
    using decode_entities_reference [of "js ''#96''" "0x60" rest] refs(6)
    by (simp add: js_def)
  show ?thesis
    unfolding escapeHtml_glyph
    using amp lt gt quot apos tick by (simp add: decode_entities_plain)
qed

lemma decode_escapeHtml: "decode_entities (escapeHtml s) = s"
proof (induction s)
  case Nil
  show ?case by (simp add: escapeHtml_Nil decode_entities.simps(1))
next
  case (Cons c s)
  have "escapeHtml (c # s) = escapeHtml [c] @ escapeHtml s"
    by (simp add: escapeHtml_def)
  with Cons show ?case
    by (simp add: decode_escaped_char)
qed

subsection \<open>The loops of processPixelData\<close>

lemma row_of_cells_Nil: "row_of_cells g pd w h y [] st = st"
  by (simp add: row_of_cells_def option.map_ident)

lemma row_of_cells_append:
  "row_of_cells g pd w h y (xs @ ys) st =
     row_of_cells g pd w h y ys (row_of_cells g pd w h y xs st)"
  by (simp add: row_of_cells_def option.map_comp comp_def)

lemma cell_step_eq:
  "cell_step g pd w h y x st =
     (case cell_glyph g pd w h y x of
        None \<Rightarrow> Inl TypeError
      | Some ch \<Rightarrow> Inr (row_of_cells g pd w h y [x] st))"
  by (simp add: cell_step_def cell_glyph_def cell_color_def row_of_cells_def Let_def
      split: option.splits)

lemma row_loop_result:
  "row_loop g pd w h y x st = Inr st' \<Longrightarrow>
   (\<forall>i \<in> set [x ..< nat w]. cell_glyph g pd w h y i \<noteq> None) \<and>
   st' = row_of_cells g pd w h y [x ..< nat w] st"
proof (induction g pd w h y x st rule: row_loop.induct)
  case (1 g pd w h y x st)
  show ?case
  proof (cases "int x < w")
    case False
    then have "row_loop g pd w h y x st = Inr st"
      by (subst row_loop.simps) simp
    moreover from False have "nat w \<le> x"
      by simp
    ultimately show ?thesis
      using "1.prems" by (simp add: row_of_cells_Nil)
  next
    case True
    then have unfold: "row_loop g pd w h y x st =
        (case cell_step g pd w h y x st of
           Inl e \<Rightarrow> Inl e
         | Inr st1 \<Rightarrow> row_loop g pd w h y (x + 1) st1)"
      by (subst row_loop.simps) simp
    from True have upt: "[x ..< nat w] = x # [x + 1 ..< nat w]"
      by (simp add: upt_conv_Cons)
    from "1.prems" unfold obtain st1 where
      step: "cell_step g pd w h y x st = Inr st1" and
      rest: "row_loop g pd w h y (x + 1) st1 = Inr st'"
      by (auto split: sum.splits)
    from step have glyph: "cell_glyph g pd w h y x \<noteq> None"
      and st1: "st1 = row_of_cells g pd w h y [x] st"
      by (auto simp add: cell_step_eq split: option.splits)
    from "1.IH" [OF True step rest]
    have later: "\<forall>i \<in> set [x + 1 ..< nat w]. cell_glyph g pd w h y i \<noteq> None"
      and st': "st' = row_of_cells g pd w h y [x + 1 ..< nat w] st1"
      by simp_all
    have "st' = row_of_cells g pd w h y ([x] @ [x + 1 ..< nat w]) st"
      unfolding row_of_cells_append st' st1 ..
    with glyph later upt show ?thesis
      by simp
  qed
qed

lemma grid_of_rows_Nil: "grid_of_rows g pd w h [] gs = gs"
  by (simp add: grid_of_rows_def option.map_ident)

lemma grid_of_rows_append:
  "grid_of_rows g pd w h (xs @ ys) gs =
     grid_of_rows g pd w h ys (grid_of_rows g pd w h xs gs)"
  by (simp add: grid_of_rows_def option.map_comp comp_def)

lemma push_row_eq:
  "color_rows gs \<noteq> None \<longrightarrow> colored (config g) \<Longrightarrow>
   push_row (row_of_cells g pd w h y [0 ..< nat w] (empty_row g)) gs =
     grid_of_rows g pd w h [y] gs"
  by (cases "color_rows gs")
     (simp_all add: push_row_def row_of_cells_def empty_row_def grid_of_rows_def)

lemma grid_of_rows_colors:
  "color_rows gs \<noteq> None \<longrightarrow> colored (config g) \<Longrightarrow>
   color_rows (grid_of_rows g pd w h ys gs) \<noteq> None \<longrightarrow> colored (config g)"
  by (simp add: grid_of_rows_def)

lemma grid_loop_result:
  "grid_loop g pd w h y gs = Inr gs' \<Longrightarrow> color_rows gs \<noteq> None \<longrightarrow> colored (config g) \<Longrightarrow>
   gs' = grid_of_rows g pd w h [y ..< nat h] gs"
proof (induction g pd w h y gs rule: grid_loop.induct)
  case (1 g pd w h y gs)
  show ?case
  proof (cases "int y < h")
    case False
    then have "grid_loop g pd w h y gs = Inr gs"
      by (subst grid_loop.simps) simp
    moreover from False have "nat h \<le> y"
      by simp
    ultimately show ?thesis
      using "1.prems"(1) by (simp add: grid_of_rows_Nil)
  next
    case True
    then have unfold: "grid_loop g pd w h y gs =
        (if optimized (config g) \<and> \<not> array_length_ok w then Inl RangeError
         else (case row_loop g pd w h y 0 (empty_row g) of
                 Inl e \<Rightarrow> Inl e
               | Inr st \<Rightarrow> grid_loop g pd w h (y + 1) (push_row st gs)))"
      by (subst grid_loop.simps) simp
    from True have upt: "[y ..< nat h] = [y] @ [y + 1 ..< nat h]"
      by (simp add: upt_conv_Cons)
    from "1.prems"(1) unfold have ok: "\<not> (optimized (config g) \<and> \<not> array_length_ok w)"
      by (auto split: if_splits)
    with "1.prems"(1) unfold obtain st where
      row: "row_loop g pd w h y 0 (empty_row g) = Inr st" and
      rest: "grid_loop g pd w h (y + 1) (push_row st gs) = Inr gs'"
      by (auto split: sum.splits)
    from row_loop_result [OF row]
    have st: "st = row_of_cells g pd w h y [0 ..< nat w] (empty_row g)"
      by simp
    have pushed: "push_row st gs = grid_of_rows g pd w h [y] gs"
      unfolding st using "1.prems"(2) by (rule push_row_eq)
    have inv: "color_rows (push_row st gs) \<noteq> None \<longrightarrow> colored (config g)"
      unfolding pushed using "1.prems"(2) by (rule grid_of_rows_colors)
    from "1.IH" [OF True ok row rest inv]
    show ?thesis
      unfolding upt grid_of_rows_append pushed .
  qed
qed

lemma processPixelData_result:
  assumes "processPixelData g pd (w, h) = Inr out"
  shows "out =
     \<lparr>text = join [0x0A] (map (\<lambda>y. map (\<lambda>x. the (cell_glyph g pd w h y x)) [0 ..< nat w])
                              [0 ..< nat h]),
      html = buildHtmlOutput g
        (map (\<lambda>y. concat (map (\<lambda>x. cell_html (colored (config g)) (cell_color pd w h y x)
                                      (the (cell_glyph g pd w h y x))) [0 ..< nat w]))
           [0 ..< nat h]),
      characters = map (\<lambda>y. map (\<lambda>x. the (cell_glyph g pd w h y x)) [0 ..< nat w])
                     [0 ..< nat h],
      colors = (if colored (config g)
                then Some (map (\<lambda>y. map (cell_color pd w h y) [0 ..< nat w]) [0 ..< nat h])
                else None)\<rparr>"
proof -
  let ?init = "\<lparr>char_rows = [], color_rows = (if colored (config g) then Some [] else None),
                 lines = [], htmlLines = []\<rparr>"
  from assms obtain gs where
    loop: "grid_loop g pd w h 0 ?init = Inr gs" and
    out: "out = \<lparr>text = join [0x0A] (lines gs), html = buildHtmlOutput g (htmlLines gs),
                 characters = char_rows gs, colors = color_rows gs\<rparr>"
    by (auto simp add: processPixelData_def Let_def split: if_splits sum.splits)
  have "color_rows ?init \<noteq> None \<longrightarrow> colored (config g)"
    by simp
  with loop have "gs = grid_of_rows g pd w h [0 ..< nat h] ?init"
    by (rule grid_loop_result)
  with out show ?thesis
    by (simp add: grid_of_rows_def)
qed

subsection \<open>Glyphs in the markup\<close>

lemma extended_colored_constructed:
  "AsciiGenerator (no_options\<lparr>charset_opt := Some (js ''EXTENDED''), colored_opt := Some True\<rparr>)
     = Inr extended_colored"
  by code_simp

lemma one_grey_pixel_processed:
  "processPixelData extended_colored one_grey_pixel (1, 1) = Inr grey_pixel_output"
  by code_simp

text \<open>
  Claim C8. Every glyph enters the \<open>html\<close> output escaped, colored or not: the markup is
  the \<open>pre\<close> element around the rows, a row is the concatenation of its cells, and a
  cell is the escaped glyph, inside a span when colored. Escaping replaces \<open>&\<close>, \<open><\<close>,
  \<open>>\<close>, the double quote, the apostrophe and the backtick by character references and
  keeps every other glyph, and decoding the escaped glyph gives the glyph back.
\<close>

theorem html_glyphs_escaped:
  "(processPixelData g pd (w, h) = Inr out \<longrightarrow>
      length (characters out) = nat h \<and>
      list_all (\<lambda>row. length row = nat w) (characters out) \<and>
      html out = buildHtmlOutput g
        (map (\<lambda>y. concat (map (\<lambda>x. cell_html (colored (config g)) (cell_color pd w h y x)
                                      (characters out ! y ! x)) [0 ..< nat w]))
           [0 ..< nat h]))
   \<and> cell_html True color ch =
       js ''<span style='' @ [0x22] @ js ''color:'' @
       rgbToCSS (red color) (green color) (blue color) (alpha color) @ [0x22] @ js ''>'' @
       escapeHtml [ch] @ js ''</span>''
   \<and> cell_html False color ch = escapeHtml [ch]
   \<and> escapeHtml [ch] =
       (if ch = 0x26 then js ''&amp;'' else if ch = 0x3C then js ''&lt;''
        else if ch = 0x3E then js ''&gt;'' else if ch = 0x22 then js ''&quot;''
        else if ch = 0x27 then js ''&#039;'' else if ch = 0x60 then js ''&#96;'' else [ch])
   \<and> decode_entities (escapeHtml [ch]) = [ch]"
proof (intro conjI impI)
  assume run: "processPixelData g pd (w, h) = Inr out"
  note res = processPixelData_result [OF run]
  have chars: "characters out =
      map (\<lambda>y. map (\<lambda>x. the (cell_glyph g pd w h y x)) [0 ..< nat w]) [0 ..< nat h]"
    by (subst res) simp
  show "length (characters out) = nat h"
    by (simp add: chars)
  show "list_all (\<lambda>row. length row = nat w) (characters out)"
    by (simp add: chars list_all_iff)
  have glyph: "characters out ! y ! x = the (cell_glyph g pd w h y x)"
    if "y < nat h" and "x < nat w" for y x
    using that by (simp add: chars)
  have "html out = buildHtmlOutput g
        (map (\<lambda>y. concat (map (\<lambda>x. cell_html (colored (config g)) (cell_color pd w h y x)
                                      (the (cell_glyph g pd w h y x))) [0 ..< nat w]))
           [0 ..< nat h])"
    by (subst res) simp
  also have "(map (\<lambda>y. concat (map (\<lambda>x. cell_html (colored (config g)) (cell_color pd w h y x)
                                      (the (cell_glyph g pd w h y x))) [0 ..< nat w]))
           [0 ..< nat h])
     = (map (\<lambda>y. concat (map (\<lambda>x. cell_html (colored (config g)) (cell_color pd w h y x)
                                      (characters out ! y ! x)) [0 ..< nat w]))
           [0 ..< nat h])"
    by (intro map_cong arg_cong [where f = concat] refl) (simp add: glyph)
  finally show "html out = buildHtmlOutput g
        (map (\<lambda>y. concat (map (\<lambda>x. cell_html (colored (config g)) (cell_color pd w h y x)
                                      (characters out ! y ! x)) [0 ..< nat w]))
           [0 ..< nat h])" .
next
  show "cell_html True color ch =
       js ''<span style='' @ [0x22] @ js ''color:'' @
       rgbToCSS (red color) (green color) (blue color) (alpha color) @ [0x22] @ js ''>'' @
       escapeHtml [ch] @ js ''</span>''"
    by (simp add: cell_html_def)
next
  show "cell_html False color ch = escapeHtml [ch]"
    by (simp add: cell_html_def)
next
  show "escapeHtml [ch] =
       (if ch = 0x26 then js ''&amp;'' else if ch = 0x3C then js ''&lt;''
        else if ch = 0x3E then js ''&gt;'' else if ch = 0x22 then js ''&quot;''
        else if ch = 0x27 then js ''&#039;'' else if ch = 0x60 then js ''&#96;'' else [ch])"
    by (rule escapeHtml_glyph)
next
  show "decode_entities (escapeHtml [ch]) = [ch]"
    by (rule decode_escapeHtml)
qed

theorem html_glyphs_escaped_witness:
  "processPixelData extended_colored one_grey_pixel (1, 1) = Inr grey_pixel_output \<and>
   html grey_pixel_output =
     buildHtmlOutput extended_colored
       [cell_html True (cell_color one_grey_pixel 1 1 0 0) 0x26] \<and>
   escapeHtml [0x26] = js ''&amp;'' \<and>
   decode_entities (js ''&amp;'') = [0x26]"
proof -
  note run = one_grey_pixel_processed
  note inst = html_glyphs_escaped
    [of extended_colored one_grey_pixel 1 1 grey_pixel_output
        "\<lparr>red = 0, green = 0, blue = 0, alpha = 255\<rparr>" "0x26"]
  have col: "colored (config extended_colored)"
    by (simp add: extended_colored_def)
  have ch: "characters grey_pixel_output ! 0 ! 0 = 0x26"
    by (simp add: grey_pixel_output_def js_def)
  from inst run have "html grey_pixel_output =
      buildHtmlOutput extended_colored
        (map (\<lambda>y. concat (map (\<lambda>x. cell_html (colored (config extended_colored))
                                      (cell_color one_grey_pixel 1 1 y x)
                                      (characters grey_pixel_output ! y ! x)) [0 ..< nat 1]))
           [0 ..< nat 1])"
    by blast
  then have h: "html grey_pixel_output =
      buildHtmlOutput extended_colored
        [cell_html True (cell_color one_grey_pixel 1 1 0 0) 0x26]"
    by (simp add: col ch)
  from inst have e: "escapeHtml [0x26] = js ''&amp;''"
    by simp
  from inst have "decode_entities (escapeHtml [0x26]) = [0x26]"
    by blast
  then have d: "decode_entities (js ''&amp;'') = [0x26]"
    by (simp only: e)
  from run h e d show ?thesis
    by blast
qed

section \<open>Further properties\<close>

text \<open>Escaping is undone by decoding, for every string.\<close>

theorem escapeHtml_roundtrip: "decode_entities (escapeHtml s) = s"
  by (rule decode_escapeHtml)

text \<open>Validation does not depend on the \<open>colored\<close> flag.\<close>

theorem validateConfig_ignores_colored:
  "validateConfig (g\<lparr>config := (config g)\<lparr>colored := b\<rparr>\<rparr>) = validateConfig g"
  by (simp add: validateConfig_def)

text \<open>
  A generator that the constructor returns passes validation, has a resolved charset
  that is not empty, and holds the options merged over the defaults.
\<close>

theorem constructed_generator_valid:
  assumes "AsciiGenerator c = Inr g"
  shows "validateConfig g = Inr () \<and> gen_charset g \<noteq> [] \<and> config g = apply_defaults c"
proof -
  from assms obtain cs where
    g: "g = \<lparr>config = apply_defaults c, gen_charset = cs\<rparr>" and
    v: "validateConfig g = Inr ()"
    by (auto simp add: AsciiGenerator_def Let_def split: sum.splits)
  from v have "gen_charset g \<noteq> []"
    by (auto simp add: validateConfig_def split: if_splits)
  with g v show ?thesis
    by simp
qed

theorem constructed_generator_valid_witness:
  "AsciiGenerator no_options = Inr default_generator \<and>
   validateConfig default_generator = Inr () \<and> gen_charset default_generator \<noteq> [] \<and>
   config default_generator = apply_defaults no_options"
proof -
  have c: "AsciiGenerator no_options = Inr default_generator"
    by code_simp
  from constructed_generator_valid [OF c] c show ?thesis
    by blast
qed

text \<open>An update that does not throw leaves a generator that passes validation.\<close>

theorem updateConfig_success_valid:
  assumes "updateConfig g c = (None, g')"
  shows "validateConfig g' = Inr ()"
  using assms
  by (auto simp add: updateConfig_def assign_and_validate_def Let_def
      split: option.splits sum.splits)

theorem updateConfig_success_valid_witness:
  "updateConfig default_generator (no_options\<lparr>width_opt := Some 80\<rparr>) =
     (None, default_generator\<lparr>config := (config default_generator)\<lparr>width := 80\<rparr>\<rparr>) \<and>
   validateConfig (default_generator\<lparr>config := (config default_generator)\<lparr>width := 80\<rparr>\<rparr>)
     = Inr ()"
proof -
  have u: "updateConfig default_generator (no_options\<lparr>width_opt := Some 80\<rparr>) =
     (None, default_generator\<lparr>config := (config default_generator)\<lparr>width := 80\<rparr>\<rparr>)"
    by code_simp
  from updateConfig_success_valid [OF u] u show ?thesis
    by blast
qed

text \<open>
  The outputs of \<open>processPixelData\<close> agree with one another: the text is the rows of the
  character grid joined by newlines, and the colour grid is present exactly when
  \<open>colored\<close> is set.
\<close>

theorem processPixelData_outputs_agree:
  assumes "processPixelData g pd (w, h) = Inr out"
  shows "text out = join [0x0A] (characters out) \<and>
         (colors out \<noteq> None) = colored (config g)"
  by (subst (1 2 3) processPixelData_result [OF assms]) simp

theorem processPixelData_outputs_agree_witness:
  "processPixelData extended_colored one_grey_pixel (1, 1) = Inr grey_pixel_output \<and>
   text grey_pixel_output = join [0x0A] (characters grey_pixel_output) \<and>
   (colors grey_pixel_output \<noteq> None) = colored (config extended_colored)"
proof -
  note run = one_grey_pixel_processed
  from processPixelData_outputs_agree [OF run] run show ?thesis
    by blast
qed

text \<open>The lengths of the preset ramps.\<close>

theorem preset_lengths:
  "resolveCharset (js ''BLOCK'') = Inr block_charset \<and> length block_charset = 6 \<and>
   resolveCharset (js ''STANDARD'') = Inr std_charset \<and> length std_charset = 10 \<and>
   resolveCharset (js ''MINIMAL'') = Inr minimal_charset \<and> length minimal_charset = 4 \<and>
   resolveCharset (js ''EXTENDED'') = Inr extended_charset \<and> length extended_charset = 70 \<and>
   resolveCharset (js ''CUSTOM'') = Inl CustomPresetRequiresString"
  by code_simp

end
